theory Spec2Isabelle
  imports Complex_Main "HOL-Library.Multiset" "HOL-Library.Char_ord" "HOL-Library.List_Lexorder"
begin

section \<open>Schema visualizer: the auto-layout algorithm\<close>

text \<open>
  Source: \<^verbatim>\<open>src/components/SchemaVisualizer/index.tsx\<close>. The file holds two versions of
  the component; the first \<^verbatim>\<open>calculateLayout\<close> is at lines 62-180, the second (taking
  \<^verbatim>\<open>onEditTable\<close>) at lines 607-726.

  \<^verbatim>\<open>ColumnInfo\<close>, \<^verbatim>\<open>IndexInfo\<close> and \<^verbatim>\<open>ForeignKeyInfo\<close> are declared in
  \<^verbatim>\<open>@/lib/dbService\<close>. The layout code reads only \<^verbatim>\<open>from\<close>, \<^verbatim>\<open>table\<close> and \<^verbatim>\<open>to\<close> of a
  foreign key and copies columns and indexes unread, so these two are type parameters.
\<close>

record ForeignKeyInfo =
  fk_from :: string
  fk_table :: string
  fk_to :: string

record ('c, 'i) SchemaTable =
  name :: string
  columns :: "'c list"
  foreignKeys :: "ForeignKeyInfo list"
  indexes :: "'i list"

record Position =
  pos_x :: int
  pos_y :: int

text \<open>
  \<^verbatim>\<open>TableNodeData\<close>. The field \<^verbatim>\<open>onEdit\<close> exists in the second version only; the first
  version builds the object without it, which is \<open>None\<close> here.
\<close>

record ('c, 'i, 'f) TableNodeData =
  data_name :: string
  data_columns :: "'c list"
  data_foreignKeys :: "ForeignKeyInfo list"
  data_indexes :: "'i list"
  onEdit :: "'f option"

record ('c, 'i, 'f) Node =
  node_id :: string
  node_type :: string
  position :: Position
  node_data :: "('c, 'i, 'f) TableNodeData"

record EdgeStyle =
  stroke :: string
  strokeWidth :: nat

record Edge =
  edge_id :: string
  source :: string
  sourceHandle :: string
  target :: string
  targetHandle :: string
  edge_type :: string
  animated :: bool
  style :: EdgeStyle
  label :: string
  labelStyle_fill :: string
  labelStyle_fontSize :: nat
  labelBgStyle_fill :: string
  labelBgStyle_fillOpacity :: real

record ('c, 'i, 'f) Layout =
  nodes :: "('c, 'i, 'f) Node list"
  edges :: "Edge list"

subsection \<open>The relationship graph\<close>

text \<open>
  A JavaScript \<^verbatim>\<open>Set<string>\<close> keeps its members in insertion order without duplicates:
  a list, with \<^verbatim>\<open>add\<close> appending a member that is not there yet. A
  \<^verbatim>\<open>Map<string, Set<string>>\<close> that is only read with \<^verbatim>\<open>get\<close> is a partial function.
\<close>

type_synonym relMap = "string \<rightharpoonup> string list"

definition setAdd :: "string list \<Rightarrow> string \<Rightarrow> string list" where
  "setAdd s v = (if v \<in> set s then s else s @ [v])"

text \<open>\<^verbatim>\<open>m.get(k)?.add(v)\<close>: nothing happens when the key is absent.\<close>

definition addTo :: "relMap \<Rightarrow> string \<Rightarrow> string \<Rightarrow> relMap" where
  "addTo m k v = (case m k of None \<Rightarrow> m | Some s \<Rightarrow> m(k \<mapsto> setAdd s v))"

text \<open>First loop: an empty set for every table, in both maps.\<close>

fun initRelationships :: "('c, 'i) SchemaTable list \<Rightarrow> relMap \<times> relMap \<Rightarrow> relMap \<times> relMap" where
  "initRelationships [] rs = rs"
| "initRelationships (t # ts) (rel, inc) =
     initRelationships ts (rel(name t \<mapsto> []), inc(name t \<mapsto> []))"

text \<open>Second loop, inner part: the foreign keys of one table.\<close>

fun addForeignKeys :: "string \<Rightarrow> ForeignKeyInfo list \<Rightarrow> relMap \<times> relMap \<Rightarrow> relMap \<times> relMap" where
  "addForeignKeys tn [] rs = rs"
| "addForeignKeys tn (fk # fks) (rel, inc) =
     addForeignKeys tn fks (addTo rel tn (fk_table fk), addTo inc (fk_table fk) tn)"

fun addAllForeignKeys :: "('c, 'i) SchemaTable list \<Rightarrow> relMap \<times> relMap \<Rightarrow> relMap \<times> relMap" where
  "addAllForeignKeys [] rs = rs"
| "addAllForeignKeys (t # ts) rs =
     addAllForeignKeys ts (addForeignKeys (name t) (foreignKeys t) rs)"

definition buildRelationships :: "('c, 'i) SchemaTable list \<Rightarrow> relMap \<times> relMap" where
  "buildRelationships tables =
     addAllForeignKeys tables (initRelationships tables (Map.empty, Map.empty))"

subsection \<open>Levels\<close>

text \<open>
  The mutable \<^verbatim>\<open>levels\<close> map and \<^verbatim>\<open>visited\<close> set that \<^verbatim>\<open>calculateLevel\<close> closes over.
\<close>

record LevelState =
  levels :: "string \<rightharpoonup> nat"
  visited :: "string set"

text \<open>\<^verbatim>\<open>levels.get(k) || 0\<close>\<close>

definition levelOr0 :: "(string \<rightharpoonup> nat) \<Rightarrow> string \<Rightarrow> nat" where
  "levelOr0 lv k = (case lv k of None \<Rightarrow> 0 | Some l \<Rightarrow> l)"

text \<open>
  \<^verbatim>\<open>calculateLevel\<close> is recursive through the \<^verbatim>\<open>forEach\<close> over the referenced tables, and
  each call sees the \<^verbatim>\<open>visited\<close> set left by the calls before it. The first argument
  is the number of nested calls of \<^verbatim>\<open>calculateLevel\<close> the stack still has room for: a
  call with no room left is the engine's \<^verbatim>\<open>RangeError\<close> (maximum call stack size
  exceeded), the value \<open>None\<close>.
  \<open>calculateLevelRefs\<close> is the body of the \<^verbatim>\<open>refs.forEach\<close> loop, with the local
  \<^verbatim>\<open>maxLevel\<close> as accumulator.

  First version (lines 86-103). The result of the recursive call is bound to
  \<^verbatim>\<open>refLevel\<close> and not used: \<^verbatim>\<open>maxLevel = Math.max(maxLevel, currentLevel)\<close>.
\<close>

fun calculateLevel ::
    "nat \<Rightarrow> relMap \<Rightarrow> string \<Rightarrow> nat \<Rightarrow> LevelState \<Rightarrow> (nat \<times> LevelState) option"
  and calculateLevelRefs ::
    "nat \<Rightarrow> relMap \<Rightarrow> string list \<Rightarrow> nat \<Rightarrow> nat \<Rightarrow> LevelState \<Rightarrow> (nat \<times> LevelState) option"
where
  "calculateLevel 0 rel tableName currentLevel st = None"
| "calculateLevel (Suc d) rel tableName currentLevel st =
     (if tableName \<in> visited st then Some (levelOr0 (levels st) tableName, st)
      else
        let st1 = st\<lparr>visited := insert tableName (visited st)\<rparr> in
        case (case rel tableName of
                None \<Rightarrow> Some (currentLevel, st1)
              | Some refs \<Rightarrow> calculateLevelRefs d rel refs currentLevel currentLevel st1) of
          None \<Rightarrow> None
        | Some (maxLevel, st2) \<Rightarrow>
            Some (maxLevel, st2\<lparr>levels := (levels st2)(tableName \<mapsto> maxLevel)\<rparr>))"
| "calculateLevelRefs d rel [] currentLevel maxLevel st = Some (maxLevel, st)"
| "calculateLevelRefs d rel (ref # refs) currentLevel maxLevel st =
     (if ref \<notin> visited st then
        (case calculateLevel d rel ref (currentLevel + 1) st of
           None \<Rightarrow> None
         | Some (refLevel, st') \<Rightarrow>
             calculateLevelRefs d rel refs currentLevel (max maxLevel currentLevel) st')
      else calculateLevelRefs d rel refs currentLevel maxLevel st)"

text \<open>
  Second version (lines 631-648): the same function, the recursive call's result dropped.
\<close>

fun calculateLevel2 ::
    "nat \<Rightarrow> relMap \<Rightarrow> string \<Rightarrow> nat \<Rightarrow> LevelState \<Rightarrow> (nat \<times> LevelState) option"
  and calculateLevelRefs2 ::
    "nat \<Rightarrow> relMap \<Rightarrow> string list \<Rightarrow> nat \<Rightarrow> nat \<Rightarrow> LevelState \<Rightarrow> (nat \<times> LevelState) option"
where
  "calculateLevel2 0 rel tableName currentLevel st = None"
| "calculateLevel2 (Suc d) rel tableName currentLevel st =
     (if tableName \<in> visited st then Some (levelOr0 (levels st) tableName, st)
      else
        let st1 = st\<lparr>visited := insert tableName (visited st)\<rparr> in
        case (case rel tableName of
                None \<Rightarrow> Some (currentLevel, st1)
              | Some refs \<Rightarrow> calculateLevelRefs2 d rel refs currentLevel currentLevel st1) of
          None \<Rightarrow> None
        | Some (maxLevel, st2) \<Rightarrow>
            Some (maxLevel, st2\<lparr>levels := (levels st2)(tableName \<mapsto> maxLevel)\<rparr>))"
| "calculateLevelRefs2 d rel [] currentLevel maxLevel st = Some (maxLevel, st)"
| "calculateLevelRefs2 d rel (ref # refs) currentLevel maxLevel st =
     (if ref \<notin> visited st then
        (case calculateLevel2 d rel ref (currentLevel + 1) st of
           None \<Rightarrow> None
         | Some r \<Rightarrow>
             calculateLevelRefs2 d rel refs currentLevel (max maxLevel currentLevel) (snd r))
      else calculateLevelRefs2 d rel refs currentLevel maxLevel st)"

text \<open>
  The two loops that call \<^verbatim>\<open>calculateLevel\<close> read the same in both versions; \<open>calc\<close> is
  the version's own \<^verbatim>\<open>calculateLevel\<close> with the stack bound and the graph applied.

  ``Start with tables that have no outgoing relationships'':
  \<^verbatim>\<open>relationships.get(table.name)?.size === 0\<close>.
\<close>

type_synonym levelFn = "string \<Rightarrow> nat \<Rightarrow> LevelState \<Rightarrow> (nat \<times> LevelState) option"

fun levelRoots ::
    "levelFn \<Rightarrow> relMap \<Rightarrow> ('c, 'i) SchemaTable list \<Rightarrow> LevelState \<Rightarrow> LevelState option" where
  "levelRoots calc rel [] st = Some st"
| "levelRoots calc rel (t # ts) st =
     (if rel (name t) = Some [] then
        (case calc (name t) 0 st of
           None \<Rightarrow> None
         | Some (l, st') \<Rightarrow> levelRoots calc rel ts st')
      else levelRoots calc rel ts st)"

text \<open>``Handle any remaining tables'': \<^verbatim>\<open>!levels.has(table.name)\<close>.\<close>

fun levelRemaining ::
    "levelFn \<Rightarrow> ('c, 'i) SchemaTable list \<Rightarrow> LevelState \<Rightarrow> LevelState option" where
  "levelRemaining calc [] st = Some st"
| "levelRemaining calc (t # ts) st =
     (if levels st (name t) = None then
        (case calc (name t) 0 st of
           None \<Rightarrow> None
         | Some (l, st') \<Rightarrow> levelRemaining calc ts st')
      else levelRemaining calc ts st)"

definition levelsWith ::
    "(relMap \<Rightarrow> levelFn) \<Rightarrow> ('c, 'i) SchemaTable list \<Rightarrow> LevelState option" where
  "levelsWith calc tables =
     (let rel = fst (buildRelationships tables) in
      case levelRoots (calc rel) rel tables \<lparr>levels = Map.empty, visited = {}\<rparr> of
        None \<Rightarrow> None
      | Some st \<Rightarrow> levelRemaining (calc rel) tables st)"

text \<open>The levels computed by the first and by the second version, \<open>d\<close> stack frames available.\<close>

definition calculateLevels :: "nat \<Rightarrow> ('c, 'i) SchemaTable list \<Rightarrow> LevelState option" where
  "calculateLevels d tables = levelsWith (calculateLevel d) tables"

definition calculateLevels2 :: "nat \<Rightarrow> ('c, 'i) SchemaTable list \<Rightarrow> LevelState option" where
  "calculateLevels2 d tables = levelsWith (calculateLevel2 d) tables"

subsection \<open>Grouping by level and positions\<close>

text \<open>
  \<^verbatim>\<open>levelGroups\<close> is a \<^verbatim>\<open>Map<number, SchemaTable[]>\<close> whose keys are read back in insertion
  order: an association list. \<open>pushToGroup\<close> is
  \<^verbatim>\<open>if (!levelGroups.has(level)) levelGroups.set(level, []); levelGroups.get(level)?.push(table)\<close>.
\<close>

fun pushToGroup :: "nat \<Rightarrow> 'a \<Rightarrow> (nat \<times> 'a list) list \<Rightarrow> (nat \<times> 'a list) list" where
  "pushToGroup l t [] = [(l, [t])]"
| "pushToGroup l t ((k, ts) # gs) =
     (if k = l then (k, ts @ [t]) # gs else (k, ts) # pushToGroup l t gs)"

fun groupByLevel ::
    "(string \<rightharpoonup> nat) \<Rightarrow> ('c, 'i) SchemaTable list \<Rightarrow> (nat \<times> ('c, 'i) SchemaTable list) list
      \<Rightarrow> (nat \<times> ('c, 'i) SchemaTable list) list" where
  "groupByLevel lv [] gs = gs"
| "groupByLevel lv (t # ts) gs = groupByLevel lv ts (pushToGroup (levelOr0 lv (name t)) t gs)"

definition nodeWidth :: int where "nodeWidth = 250"
definition nodeHeight :: int where "nodeHeight = 200"
definition horizontalGap :: int where "horizontalGap = 100"
definition verticalGap :: int where "verticalGap = 80"

text \<open>
  \<^verbatim>\<open>Array.from(levelGroups.keys()).sort((a, b) => b - a)\<close>: the keys in descending order
  (they are distinct, so the order is determined).
\<close>

definition sortedLevels :: "(nat \<times> 'a list) list \<Rightarrow> nat list" where
  "sortedLevels gs = rev (sort (map fst gs))"

text \<open>
  The positions of one level. \<^verbatim>\<open>levelWidth\<close> is a multiple of 350 and \<^verbatim>\<open>nodeWidth\<close> is
  250, so both halves are whole numbers and the floating-point arithmetic of the source is
  exact integer arithmetic.
\<close>

definition levelNodes ::
    "(int \<Rightarrow> int \<Rightarrow> ('c, 'i) SchemaTable \<Rightarrow> ('c, 'i, 'f) Node) \<Rightarrow> nat
      \<Rightarrow> ('c, 'i) SchemaTable list \<Rightarrow> ('c, 'i, 'f) Node list" where
  "levelNodes mk levelIndex tablesInLevel =
     (let levelWidth = int (length tablesInLevel) * (nodeWidth + horizontalGap);
          startX = - (levelWidth div 2) + (nodeWidth div 2)
      in map (\<lambda>(tableIndex, t).
                mk (startX + int tableIndex * (nodeWidth + horizontalGap))
                   (int levelIndex * (nodeHeight + verticalGap)) t)
             (enumerate 0 tablesInLevel))"

text \<open>\<^verbatim>\<open>levelGroups.get(level) || []\<close>\<close>

definition groupOf :: "(nat \<times> 'a list) list \<Rightarrow> nat \<Rightarrow> 'a list" where
  "groupOf gs level = (case map_of gs level of None \<Rightarrow> [] | Some ts \<Rightarrow> ts)"

definition positionNodes ::
    "(int \<Rightarrow> int \<Rightarrow> ('c, 'i) SchemaTable \<Rightarrow> ('c, 'i, 'f) Node)
      \<Rightarrow> (nat \<times> ('c, 'i) SchemaTable list) list \<Rightarrow> ('c, 'i, 'f) Node list" where
  "positionNodes mk gs =
     concat (map (\<lambda>(levelIndex, level). levelNodes mk levelIndex (groupOf gs level))
                 (enumerate 0 (sortedLevels gs)))"

subsection \<open>The first version of \<^verbatim>\<open>calculateLayout\<close> (lines 62-180)\<close>

definition edgeStyle :: EdgeStyle where
  "edgeStyle = \<lparr>stroke = ''#a855f7'', strokeWidth = 2\<rparr>"

definition tableNode :: "int \<Rightarrow> int \<Rightarrow> ('c, 'i) SchemaTable \<Rightarrow> ('c, 'i, 'f) Node" where
  "tableNode x y t =
     \<lparr>node_id = name t,
      node_type = ''tableNode'',
      position = \<lparr>pos_x = x, pos_y = y\<rparr>,
      node_data = \<lparr>data_name = name t, data_columns = columns t,
                   data_foreignKeys = foreignKeys t, data_indexes = indexes t,
                   onEdit = None\<rparr>\<rparr>"

definition fkEdge :: "('c, 'i) SchemaTable \<Rightarrow> ForeignKeyInfo \<Rightarrow> Edge" where
  "fkEdge t fk =
     \<lparr>edge_id = name t @ ''-'' @ fk_from fk @ ''-'' @ fk_table fk @ ''-'' @ fk_to fk,
      source = name t,
      sourceHandle = name t @ ''-'' @ fk_from fk @ ''-source'',
      target = fk_table fk,
      targetHandle = fk_table fk @ ''-'' @ fk_to fk @ ''-target'',
      edge_type = ''smoothstep'',
      animated = True,
      style = edgeStyle,
      label = fk_from fk,
      labelStyle_fill = ''#a855f7'',
      labelStyle_fontSize = 10,
      labelBgStyle_fill = ''hsl(var(--card))'',
      labelBgStyle_fillOpacity = 0.8\<rparr>"

definition createEdges :: "('c, 'i) SchemaTable list \<Rightarrow> Edge list" where
  "createEdges tables = concat (map (\<lambda>t. map (fkEdge t) (foreignKeys t)) tables)"

definition calculateLayout ::
    "nat \<Rightarrow> ('c, 'i) SchemaTable list \<Rightarrow> ('c, 'i, 'f) Layout option" where
  "calculateLayout d tables =
     (case calculateLevels d tables of
        None \<Rightarrow> None
      | Some st \<Rightarrow>
          Some \<lparr>nodes = positionNodes tableNode (groupByLevel (levels st) tables []),
                edges = createEdges tables\<rparr>)"

subsection \<open>The second version of \<^verbatim>\<open>calculateLayout\<close> (lines 607-726)\<close>

definition edgeStyle2 :: EdgeStyle where
  "edgeStyle2 = \<lparr>stroke = ''#ffffff'', strokeWidth = 2\<rparr>"

definition tableNode2 ::
    "'f option \<Rightarrow> int \<Rightarrow> int \<Rightarrow> ('c, 'i) SchemaTable \<Rightarrow> ('c, 'i, 'f) Node" where
  "tableNode2 onEditTable x y t =
     \<lparr>node_id = name t,
      node_type = ''tableNode'',
      position = \<lparr>pos_x = x, pos_y = y\<rparr>,
      node_data = \<lparr>data_name = name t, data_columns = columns t,
                   data_foreignKeys = foreignKeys t, data_indexes = indexes t,
                   onEdit = onEditTable\<rparr>\<rparr>"

definition fkEdge2 :: "('c, 'i) SchemaTable \<Rightarrow> ForeignKeyInfo \<Rightarrow> Edge" where
  "fkEdge2 t fk =
     \<lparr>edge_id = name t @ ''-'' @ fk_from fk @ ''-'' @ fk_table fk @ ''-'' @ fk_to fk,
      source = name t,
      sourceHandle = name t @ ''-'' @ fk_from fk @ ''-source'',
      target = fk_table fk,
      targetHandle = fk_table fk @ ''-'' @ fk_to fk @ ''-target'',
      edge_type = ''smoothstep'',
      animated = True,
      style = edgeStyle2,
      label = fk_from fk,
      labelStyle_fill = ''#ffffff'',
      labelStyle_fontSize = 10,
      labelBgStyle_fill = ''hsl(var(--card))'',
      labelBgStyle_fillOpacity = 0.8\<rparr>"

definition createEdges2 :: "('c, 'i) SchemaTable list \<Rightarrow> Edge list" where
  "createEdges2 tables = concat (map (\<lambda>t. map (fkEdge2 t) (foreignKeys t)) tables)"

definition calculateLayout2 ::
    "nat \<Rightarrow> ('c, 'i) SchemaTable list \<Rightarrow> 'f option \<Rightarrow> ('c, 'i, 'f) Layout option" where
  "calculateLayout2 d tables onEditTable =
     (case calculateLevels2 d tables of
        None \<Rightarrow> None
      | Some st \<Rightarrow>
          Some \<lparr>nodes = positionNodes (tableNode2 onEditTable) (groupByLevel (levels st) tables []),
                edges = createEdges2 tables\<rparr>)"

subsection \<open>Notions used to state the layout properties\<close>

text \<open>
  Between two top-level calls of \<^verbatim>\<open>calculateLevel\<close> every visited table has its level
  recorded.
\<close>

definition levelled :: "LevelState \<Rightarrow> bool" where
  "levelled st = (visited st \<subseteq> dom (levels st))"

text \<open>The table a node was built from, read back from the node.\<close>

definition nodeTable :: "('c, 'i, 'f) Node \<Rightarrow> ('c, 'i) SchemaTable" where
  "nodeTable n = \<lparr>name = node_id n, columns = data_columns (node_data n),
                  foreignKeys = data_foreignKeys (node_data n),
                  indexes = data_indexes (node_data n)\<rparr>"

text \<open>
  What the second version changes in a layout of the first: the \<^verbatim>\<open>onEdit\<close> field of the
  node data, and the colour of the edge line and of the edge label.
\<close>

definition restyle :: "'f option \<Rightarrow> ('c, 'i, 'f) Layout \<Rightarrow> ('c, 'i, 'f) Layout" where
  "restyle cb l =
     \<lparr>nodes = map (\<lambda>n. n\<lparr>node_data := (node_data n)\<lparr>onEdit := cb\<rparr>\<rparr>) (nodes l),
      edges = map (\<lambda>e. e\<lparr>style := edgeStyle2, labelStyle_fill := ''#ffffff''\<rparr>) (edges l)\<rparr>"

text \<open>
  A schema with a two-table cycle (\<open>a\<close> and \<open>b\<close> reference each other) and a
  self-referencing table \<open>c\<close>.
\<close>

definition cyclicTables :: "(unit, unit) SchemaTable list" where
  "cyclicTables =
     [\<lparr>name = ''a'', columns = [],
       foreignKeys = [\<lparr>fk_from = ''b_id'', fk_table = ''b'', fk_to = ''id''\<rparr>], indexes = []\<rparr>,
      \<lparr>name = ''b'', columns = [],
       foreignKeys = [\<lparr>fk_from = ''a_id'', fk_table = ''a'', fk_to = ''id''\<rparr>], indexes = []\<rparr>,
      \<lparr>name = ''c'', columns = [],
       foreignKeys = [\<lparr>fk_from = ''parent'', fk_table = ''c'', fk_to = ''id''\<rparr>], indexes = []\<rparr>]"

section \<open>The database view\<close>

text \<open>
  Source: the two versions of the \<^verbatim>\<open>DatabaseView\<close> component. The code modelled here
  (backend selection, \<^verbatim>\<open>handleUpdateRow\<close>, \<^verbatim>\<open>handleSaveDatabase\<close>) reads the same in both.
  The services \<^verbatim>\<open>dbService\<close> and \<^verbatim>\<open>pgService\<close> and the hooks \<^verbatim>\<open>useDatabase\<close> and
  \<^verbatim>\<open>usePostgres\<close> are imported from modules that are not among the sources: what they
  return is a parameter, and every call to them is recorded.
\<close>

subsection \<open>Backend selection\<close>

text \<open>
  The four per-backend functions the component keeps in \<^verbatim>\<open>sqliteFuncsRef\<close> and
  \<^verbatim>\<open>postgresFuncsRef\<close>. The PostgreSQL ones return promises; a promise is modelled by the
  value it resolves to.
\<close>

record ('d, 'c, 'k, 'x) BackendFuncs =
  getTableData :: "string \<Rightarrow> 'd"
  getTableColumns :: "string \<Rightarrow> 'c"
  getForeignKeys :: "string \<Rightarrow> 'k"
  getIndexes :: "string \<Rightarrow> 'x"

text \<open>What one render of the component gets from \<^verbatim>\<open>useDatabase()\<close> and \<^verbatim>\<open>usePostgres()\<close>.\<close>

record ('t, 'd, 'c, 'k, 'x) Hooks =
  isLoaded :: bool
  sqliteTables :: "'t list"
  sqliteFuncs :: "('d, 'c, 'k, 'x) BackendFuncs"
  isConnected :: bool
  postgresTables :: "'t list"
  postgresFuncs :: "('d, 'c, 'k, 'x) BackendFuncs"

definition isPostgresActive :: "('t, 'd, 'c, 'k, 'x) Hooks \<Rightarrow> bool" where
  "isPostgresActive h = isConnected h"

definition isSqliteActive :: "('t, 'd, 'c, 'k, 'x) Hooks \<Rightarrow> bool" where
  "isSqliteActive h = (isLoaded h \<and> \<not> isPostgresActive h)"

definition tables :: "('t, 'd, 'c, 'k, 'x) Hooks \<Rightarrow> 't list" where
  "tables h = (if isPostgresActive h then postgresTables h else sqliteTables h)"

definition databaseAvailable :: "('t, 'd, 'c, 'k, 'x) Hooks \<Rightarrow> bool" where
  "databaseAvailable h = (isPostgresActive h \<or> isSqliteActive h)"

text \<open>
  The refs. Every render assigns \<^verbatim>\<open>isPostgresActiveRef.current\<close>,
  \<^verbatim>\<open>sqliteFuncsRef.current\<close> and \<^verbatim>\<open>postgresFuncsRef.current\<close> from that render's values.
\<close>

record ('d, 'c, 'k, 'x) Refs =
  isPostgresActiveRef :: bool
  sqliteFuncsRef :: "('d, 'c, 'k, 'x) BackendFuncs"
  postgresFuncsRef :: "('d, 'c, 'k, 'x) BackendFuncs"

definition render :: "('t, 'd, 'c, 'k, 'x) Hooks \<Rightarrow> ('d, 'c, 'k, 'x) Refs" where
  "render h = \<lparr>isPostgresActiveRef = isPostgresActive h,
               sqliteFuncsRef = sqliteFuncs h,
               postgresFuncsRef = postgresFuncs h\<rparr>"

definition getTableColumnsStable :: "('d, 'c, 'k, 'x) Refs \<Rightarrow> string \<Rightarrow> 'c" where
  "getTableColumnsStable r tableName =
     (if isPostgresActiveRef r then getTableColumns (postgresFuncsRef r) tableName
      else getTableColumns (sqliteFuncsRef r) tableName)"

definition getForeignKeysStable :: "('d, 'c, 'k, 'x) Refs \<Rightarrow> string \<Rightarrow> 'k" where
  "getForeignKeysStable r tableName =
     (if isPostgresActiveRef r then getForeignKeys (postgresFuncsRef r) tableName
      else getForeignKeys (sqliteFuncsRef r) tableName)"

definition getIndexesStable :: "('d, 'c, 'k, 'x) Refs \<Rightarrow> string \<Rightarrow> 'x" where
  "getIndexesStable r tableName =
     (if isPostgresActiveRef r then getIndexes (postgresFuncsRef r) tableName
      else getIndexes (sqliteFuncsRef r) tableName)"

text \<open>
  The body of \<^verbatim>\<open>loadTableData\<close>: the columns and the data of the selected table, both
  from the same backend.
\<close>

definition loadTableData :: "('d, 'c, 'k, 'x) Refs \<Rightarrow> string \<Rightarrow> 'c \<times> 'd" where
  "loadTableData r selectedTable =
     (if isPostgresActiveRef r then
        (getTableColumns (postgresFuncsRef r) selectedTable,
         getTableData (postgresFuncsRef r) selectedTable)
      else
        (getTableColumns (sqliteFuncsRef r) selectedTable,
         getTableData (sqliteFuncsRef r) selectedTable))"

subsection \<open>\<^verbatim>\<open>handleUpdateRow\<close>\<close>

text \<open>
  A row (\<^verbatim>\<open>RowData\<close>) and a \<^verbatim>\<open>DeleteOperation\<close> are JavaScript objects: property names
  with values. \<^verbatim>\<open>string[]\<close> is the only array type the source declares. Numbers are
  modelled as far as they are integers.
\<close>

datatype jsValue = JNull | JNumber int | JString string | JBoolean bool | JStringArray "string list"

type_synonym RowData = "(string \<times> jsValue) list"

definition DeleteOperation :: "string list \<Rightarrow> string \<Rightarrow> RowData" where
  "DeleteOperation ids pk =
     [(''type'', JString ''delete''), (''rowIds'', JStringArray ids),
      (''primaryKeyColumn'', JString pk)]"

text \<open>
  \<^verbatim>\<open>obj.type === 'delete' && Array.isArray(obj.rowIds) && typeof obj.primaryKeyColumn === 'string'\<close>
  (the argument is an object here, so the first line of the guard does not return).
\<close>

definition isDeleteOperation :: "RowData \<Rightarrow> bool" where
  "isDeleteOperation obj =
     (map_of obj ''type'' = Some (JString ''delete'') \<and>
      (case map_of obj ''rowIds'' of Some (JStringArray ids) \<Rightarrow> True | _ \<Rightarrow> False) \<and>
      (case map_of obj ''primaryKeyColumn'' of Some (JString pk) \<Rightarrow> True | _ \<Rightarrow> False))"

text \<open>\<^verbatim>\<open>newRow.rowIds\<close> and \<^verbatim>\<open>newRow.primaryKeyColumn\<close>, read after the guard has passed.\<close>

definition rowIds :: "RowData \<Rightarrow> string list" where
  "rowIds obj = (case map_of obj ''rowIds'' of Some (JStringArray ids) \<Rightarrow> ids | _ \<Rightarrow> [])"

definition primaryKeyColumn :: "RowData \<Rightarrow> string" where
  "primaryKeyColumn obj = (case map_of obj ''primaryKeyColumn'' of Some (JString pk) \<Rightarrow> pk | _ \<Rightarrow> [])"

text \<open>\<^verbatim>\<open>Array.prototype.join\<close> on strings.\<close>

fun join :: "string \<Rightarrow> string list \<Rightarrow> string" where
  "join sep [] = []"
| "join sep [x] = x"
| "join sep (x # y # ys) = x @ sep @ join sep (y # ys)"

text \<open>The calls the component makes on the two services, with their arguments.\<close>

datatype backendCall =
    PgDeleteRows string string "string list"
  | PgUpdateRow string RowData RowData
  | DbExecuteBatchOperations "string list"
  | DbUpdateRow string RowData RowData

record Toast =
  title :: string
  description :: string
  variant :: "string option"

text \<open>
  What a call of \<^verbatim>\<open>handleUpdateRow\<close> does: the value its promise resolves to (\<open>None\<close>
  when it rejects), the service calls it made and the toasts it showed.
\<close>

record HandlerResult =
  resolved :: "bool option"
  calls :: "backendCall list"
  toasts :: "Toast list"

text \<open>
  The SQL text of the embedded delete branch:
  \<^verbatim>\<open>`DELETE FROM ${selectedTable} WHERE ${newRow.primaryKeyColumn} IN (${newRow.rowIds.map(id => `'${id}'`).join(',')})`\<close>
\<close>

definition deleteSql :: "string \<Rightarrow> RowData \<Rightarrow> string" where
  "deleteSql selectedTable newRow =
     ''DELETE FROM '' @ selectedTable @ '' WHERE '' @ primaryKeyColumn newRow @ '' IN ('' @
       join '','' (map (\<lambda>id. [CHR 0x27] @ id @ [CHR 0x27]) (rowIds newRow)) @ '')''"

text \<open>
  \<open>respond\<close> is the service behind a call: \<open>Some b\<close> when the call returns \<open>b\<close> (for
  \<^verbatim>\<open>executeBatchOperations\<close>, the \<^verbatim>\<open>success\<close> field of its result), \<open>None\<close> when it throws
  or its promise rejects. Only the PostgreSQL branch has a \<^verbatim>\<open>try\<close>/\<^verbatim>\<open>catch\<close>.
\<close>

definition handleUpdateRow ::
    "(backendCall \<Rightarrow> bool option) \<Rightarrow> string \<Rightarrow> bool \<Rightarrow> RowData option \<Rightarrow> RowData
      \<Rightarrow> HandlerResult" where
  "handleUpdateRow respond selectedTable pgActive oldRow newRow =
     (if selectedTable = [] then \<lparr>resolved = Some False, calls = [], toasts = []\<rparr>
      else if pgActive then
        (let attempt = (\<lambda>c. case respond c of
               Some b \<Rightarrow> \<lparr>resolved = Some b, calls = [c], toasts = []\<rparr>
             | None \<Rightarrow>
                 \<lparr>resolved = Some False, calls = [c],
                  toasts = [\<lparr>title = ''Error'',
                             description = ''Failed to update/delete PostgreSQL row(s)'',
                             variant = Some ''destructive''\<rparr>]\<rparr>)
         in if isDeleteOperation newRow then
              attempt (PgDeleteRows selectedTable (primaryKeyColumn newRow) (rowIds newRow))
            else case oldRow of
              Some old \<Rightarrow> attempt (PgUpdateRow selectedTable old newRow)
            | None \<Rightarrow> \<lparr>resolved = Some False, calls = [], toasts = []\<rparr>)
      else
        (if isDeleteOperation newRow then
           (let sql = deleteSql selectedTable newRow;
                c = DbExecuteBatchOperations [sql]
            in \<lparr>resolved = respond c, calls = [c], toasts = []\<rparr>)
         else case oldRow of
           Some old \<Rightarrow>
             (let c = DbUpdateRow selectedTable old newRow
              in \<lparr>resolved = respond c, calls = [c], toasts = []\<rparr>)
         | None \<Rightarrow> \<lparr>resolved = Some False, calls = [], toasts = []\<rparr>))"

subsection \<open>\<^verbatim>\<open>handleSaveDatabase\<close>\<close>

text \<open>
  Modelled from the spec: \<^verbatim>\<open>dbService.exportDatabase\<close>, the \<^verbatim>\<open>readAll\<close> of the Connection
  Session, whose code is not among the sources (only its call in \<^verbatim>\<open>handleSaveDatabase\<close>
  is). The spec: an embedded session has an in-memory state and a dirty buffer of edits
  that accumulate until they are saved; \<^verbatim>\<open>readAll\<close> serializes the in-memory state and
  ``fails only if no changes exist to export (signaled, not a hard error)''. The signal is
  the value \<open>None\<close> (the \<^verbatim>\<open>null\<close> the caller tests with \<^verbatim>\<open>!data\<close>); nothing is thrown.
\<close>

record 'b EmbeddedSession =
  memory :: 'b
  dirty :: bool

definition exportDatabase :: "'b EmbeddedSession \<Rightarrow> 'b option" where
  "exportDatabase s = (if dirty s then Some (memory s) else None)"

text \<open>
  The result of \<^verbatim>\<open>window.electron.saveDatabase\<close>: it rejects, or resolves to an object
  with \<^verbatim>\<open>success\<close> and an optional \<^verbatim>\<open>error\<close>.
\<close>

datatype saveReply = SaveRejected | SaveReplied bool "string option"

text \<open>\<open>writes\<close> are the calls of \<^verbatim>\<open>window.electron.saveDatabase\<close> made, path and bytes.\<close>

record 'b SaveResult =
  writes :: "(string \<times> 'b) list"
  saveToasts :: "Toast list"
  lastSavedSet :: bool

text \<open>
  \<open>data\<close> is what \<^verbatim>\<open>dbService.exportDatabase()\<close> returned, \<open>currentFilePath\<close> is
  \<^verbatim>\<open>dbService.currentFilePath\<close> (\<open>None\<close> for \<^verbatim>\<open>null\<close>; the empty string is falsy too) and
  \<open>electron\<close> is \<^verbatim>\<open>window.electron\<close>, absent outside the desktop shell, whose
  \<^verbatim>\<open>saveDatabase\<close> writes the bytes to the path. \<^verbatim>\<open>result.error || "Failed to save database"\<close>
  takes the default for an absent or empty message.
\<close>

definition handleSaveDatabase ::
    "bool \<Rightarrow> 'b option \<Rightarrow> string option \<Rightarrow> (string \<Rightarrow> 'b \<Rightarrow> saveReply) option \<Rightarrow> 'b SaveResult" where
  "handleSaveDatabase pgActive data currentFilePath electron =
     (if pgActive then
        \<lparr>writes = [],
         saveToasts = [\<lparr>title = ''Information'',
                        description = ''PostgreSQL databases are saved on the server automatically'',
                        variant = None\<rparr>],
         lastSavedSet = False\<rparr>
      else case data of
        None \<Rightarrow>
          \<lparr>writes = [],
           saveToasts = [\<lparr>title = ''Error'', description = ''No database changes to save'',
                          variant = Some ''destructive''\<rparr>],
           lastSavedSet = False\<rparr>
      | Some bytes \<Rightarrow>
          (case (currentFilePath, electron) of
             (Some path, Some saveDatabase) \<Rightarrow>
               (if path = [] then
                  \<lparr>writes = [],
                   saveToasts = [\<lparr>title = ''Error'',
                                  description = ''No database file loaded. Please load a database file first.'',
                                  variant = Some ''destructive''\<rparr>],
                   lastSavedSet = False\<rparr>
                else case saveDatabase path bytes of
                  SaveReplied True err \<Rightarrow>
                    \<lparr>writes = [(path, bytes)],
                     saveToasts = [\<lparr>title = ''Success'', description = ''Database saved successfully'',
                                    variant = None\<rparr>],
                     lastSavedSet = True\<rparr>
                | SaveReplied False err \<Rightarrow>
                    \<lparr>writes = [(path, bytes)],
                     saveToasts = [\<lparr>title = ''Error'',
                                    description = (case err of None \<Rightarrow> ''Failed to save database''
                                                   | Some e \<Rightarrow> if e = [] then ''Failed to save database'' else e),
                                    variant = Some ''destructive''\<rparr>],
                     lastSavedSet = False\<rparr>
                | SaveRejected \<Rightarrow>
                    \<lparr>writes = [(path, bytes)],
                     saveToasts = [\<lparr>title = ''Error'', description = ''Failed to save database'',
                                    variant = Some ''destructive''\<rparr>],
                     lastSavedSet = False\<rparr>)
           | _ \<Rightarrow>
               \<lparr>writes = [],
                saveToasts = [\<lparr>title = ''Error'',
                               description = ''No database file loaded. Please load a database file first.'',
                               variant = Some ''destructive''\<rparr>],
                lastSavedSet = False\<rparr>))"

section \<open>The schema visualizer component: loading and caching\<close>

text \<open>
  Source: the load effect of \<^verbatim>\<open>SchemaVisualizer\<close> (first version, lines 207-268). The
  component caches \<^verbatim>\<open>schemaData\<close> and the layout computed from it (\<^verbatim>\<open>nodes\<close>, \<^verbatim>\<open>edges\<close>)
  in its state.

  The three accessors are props. A call is rejected (it throws, or its promise rejects),
  resolves to a falsy value (\<^verbatim>\<open>columns || []\<close>), or resolves to a list.
\<close>

datatype 'a fetched = Rejected | Nullish | Resolved 'a

record ('c, 'i) Props =
  prop_tables :: "string list"
  prop_getTableColumns :: "string \<Rightarrow> 'c list fetched"
  prop_getForeignKeys :: "string \<Rightarrow> ForeignKeyInfo list fetched"
  prop_getIndexes :: "string \<Rightarrow> 'i list fetched"

record ('c, 'i, 'f) VisualizerState =
  schemaData :: "('c, 'i) SchemaTable list"
  hasLoaded :: bool
  loading :: bool
  state_nodes :: "('c, 'i, 'f) Node list"
  state_edges :: "Edge list"

text \<open>\<^verbatim>\<open>useState\<close> initial values.\<close>

definition initialState :: "('c, 'i, 'f) VisualizerState" where
  "initialState = \<lparr>schemaData = [], hasLoaded = False, loading = True,
                    state_nodes = [], state_edges = []\<rparr>"

text \<open>
  \<^verbatim>\<open>tables.map(t => t.name).sort().join(',')\<close>; of a \<^verbatim>\<open>TableInfo\<close> only the name is read, so
  the prop is the list of names. The default \<^verbatim>\<open>sort\<close> orders strings by code units, which
  is the lexicographic order on character lists.
\<close>

definition tableKey :: "string list \<Rightarrow> string" where
  "tableKey names = join '','' (sort names)"

definition orEmpty :: "'a list fetched \<Rightarrow> 'a list" where
  "orEmpty r = (case r of Resolved xs \<Rightarrow> xs | _ \<Rightarrow> [])"

text \<open>One element of \<^verbatim>\<open>schemaPromises\<close>; \<open>None\<close> when one of the three calls is rejected.\<close>

definition loadTable :: "('c, 'i) Props \<Rightarrow> string \<Rightarrow> ('c, 'i) SchemaTable option" where
  "loadTable p tn =
     (let cs = prop_getTableColumns p tn; fks = prop_getForeignKeys p tn; ixs = prop_getIndexes p tn
      in if cs = Rejected \<or> fks = Rejected \<or> ixs = Rejected then None
         else Some \<lparr>name = tn, columns = orEmpty cs, foreignKeys = orEmpty fks,
                     indexes = orEmpty ixs\<rparr>)"

text \<open>\<^verbatim>\<open>Promise.all(schemaPromises)\<close>\<close>

fun promiseAll :: "'a option list \<Rightarrow> 'a list option" where
  "promiseAll [] = Some []"
| "promiseAll (None # ps) = None"
| "promiseAll (Some x # ps) = (case promiseAll ps of None \<Rightarrow> None | Some xs \<Rightarrow> Some (x # xs))"

text \<open>
  \<^verbatim>\<open>loadSchema\<close>, run to completion with the component mounted. \<open>d\<close> is the stack
  available to \<^verbatim>\<open>calculateLayout\<close>. An exception leaves the \<^verbatim>\<open>try\<close> block where it is
  thrown: a rejected accessor before any state is set, a stack overflow in
  \<^verbatim>\<open>calculateLayout\<close> after \<^verbatim>\<open>setSchemaData\<close> and \<^verbatim>\<open>setHasLoaded\<close>.
\<close>

definition loadSchema ::
    "nat \<Rightarrow> ('c, 'i) Props \<Rightarrow> ('c, 'i, 'f) VisualizerState \<Rightarrow> ('c, 'i, 'f) VisualizerState" where
  "loadSchema d p st =
     (case promiseAll (map (loadTable p) (prop_tables p)) of
        None \<Rightarrow> st\<lparr>loading := False\<rparr>
      | Some data \<Rightarrow>
          (case calculateLayout d data of
             None \<Rightarrow> st\<lparr>schemaData := data, hasLoaded := True, loading := False\<rparr>
           | Some l \<Rightarrow>
               st\<lparr>schemaData := data, hasLoaded := True, loading := False,
                  state_nodes := nodes l, state_edges := edges l\<rparr>))"

text \<open>The effect body: ``Skip if already loaded with the same tables''.\<close>

definition loadEffect ::
    "nat \<Rightarrow> ('c, 'i) Props \<Rightarrow> ('c, 'i, 'f) VisualizerState \<Rightarrow> ('c, 'i, 'f) VisualizerState" where
  "loadEffect d p st =
     (if hasLoaded st \<and> length (schemaData st) = length (prop_tables p) then st
      else if length (prop_tables p) > 0 then loadSchema d p st
      else st\<lparr>loading := False\<rparr>)"

text \<open>
  A render with new props. The effect has the dependency list \<^verbatim>\<open>[tableKey]\<close>: it runs
  after the first render and after every render whose \<^verbatim>\<open>tableKey\<close> differs from the
  previous one. The second component is the key of the previous render.
\<close>

definition rerender ::
    "nat \<Rightarrow> ('c, 'i) Props \<Rightarrow> ('c, 'i, 'f) VisualizerState \<times> string option
      \<Rightarrow> ('c, 'i, 'f) VisualizerState \<times> string option" where
  "rerender d p s =
     (let key = tableKey (prop_tables p)
      in if snd s = Some key then s else (loadEffect d p (fst s), Some key))"

text \<open>
  An example: the accessors resolve to empty lists for every table. The component is
  mounted with the one table \<open>users\<close>; then the table list is refreshed and holds the one
  table \<open>orders\<close> (the table was renamed, or replaced by another).
\<close>

definition propsFor :: "string list \<Rightarrow> (unit, unit) Props" where
  "propsFor names = \<lparr>prop_tables = names,
      prop_getTableColumns = (\<lambda>tn. Resolved []),
      prop_getForeignKeys = (\<lambda>tn. Resolved []),
      prop_getIndexes = (\<lambda>tn. Resolved [])\<rparr>"

definition mounted :: "(unit, unit, unit) VisualizerState \<times> string option" where
  "mounted = rerender 8 (propsFor [''users'']) (initialState, None)"

definition refreshed :: "(unit, unit, unit) VisualizerState \<times> string option" where
  "refreshed = rerender 8 (propsFor [''orders'']) mounted"

section \<open>The batch execution engine\<close>

text \<open>
  Modelled from the spec: the Batch Execution Engine, \<^verbatim>\<open>execute(script, atomic)\<close>
  (\<^verbatim>\<open>dbService.executeBatchOperations\<close>), whose code is not among the sources; only its call
  in \<^verbatim>\<open>handleUpdateRow\<close> is. The model starts after splitting, from the list of statements.

  The engine delegates execution to the backend. \<open>exec\<close> is the backend running one
  statement on a database state: it rejects the statement with a message, leaving the
  state as it was, or gives the new state and the number of rows affected. A session holds
  the current database state and, while a transaction is open, the state at its beginning.
\<close>

record 'db DbSession =
  current :: 'db
  txStart :: "'db option"

definition beginTransaction :: "'db DbSession \<Rightarrow> 'db DbSession" where
  "beginTransaction s = s\<lparr>txStart := Some (current s)\<rparr>"

definition commitTransaction :: "'db DbSession \<Rightarrow> 'db DbSession" where
  "commitTransaction s = s\<lparr>txStart := None\<rparr>"

definition rollbackTransaction :: "'db DbSession \<Rightarrow> 'db DbSession" where
  "rollbackTransaction s =
     (case txStart s of None \<Rightarrow> s | Some d0 \<Rightarrow> \<lparr>current = d0, txStart = None\<rparr>)"

text \<open>\<^verbatim>\<open>StatementResult\<close>, without the elapsed duration.\<close>

record 's StatementResult =
  statement :: 's
  success :: bool
  errorMessage :: "string option"
  rowsAffected :: nat

text \<open>What the engine asks of the backend, in order; \<open>Exec i\<close> is statement number \<open>i\<close>.\<close>

datatype event = Begin | Exec nat | Commit | Rollback

datatype batchState = Committed | RolledBack | PartiallyApplied

record ('s, 'db) BatchResult =
  statements :: "'s StatementResult list"
  overallSuccess :: bool
  abortedAt :: "nat option"
  finalState :: batchState
  session :: "'db DbSession"
  trace :: "event list"

text \<open>
  Atomic mode: ``execute statements in source order; on the first failure, abort
  immediately''. The result is the statement results, the events, the position of the
  failure if there is one, and the session.
\<close>

fun runAtomic ::
    "('s \<Rightarrow> 'db \<Rightarrow> string + 'db \<times> nat) \<Rightarrow> nat \<Rightarrow> 's list \<Rightarrow> 'db DbSession
      \<Rightarrow> 's StatementResult list \<times> event list \<times> nat option \<times> 'db DbSession" where
  "runAtomic exec i [] s = ([], [], None, s)"
| "runAtomic exec i (q # qs) s =
     (case exec q (current s) of
        Inl msg \<Rightarrow>
          ([\<lparr>statement = q, success = False, errorMessage = Some msg, rowsAffected = 0\<rparr>],
           [Exec i], Some i, s)
      | Inr (d', n) \<Rightarrow>
          (case runAtomic exec (Suc i) qs (s\<lparr>current := d'\<rparr>) of
             (rs, tr, ab, s') \<Rightarrow>
               (\<lparr>statement = q, success = True, errorMessage = None, rowsAffected = n\<rparr> # rs,
                Exec i # tr, ab, s')))"

text \<open>
  Best-effort mode: ``a failure is recorded in that statement's \<^verbatim>\<open>StatementResult\<close> and
  execution continues to the next statement''. The flag says whether all succeeded.
\<close>

fun runBestEffort ::
    "('s \<Rightarrow> 'db \<Rightarrow> string + 'db \<times> nat) \<Rightarrow> nat \<Rightarrow> 's list \<Rightarrow> 'db DbSession
      \<Rightarrow> 's StatementResult list \<times> event list \<times> bool \<times> 'db DbSession" where
  "runBestEffort exec i [] s = ([], [], True, s)"
| "runBestEffort exec i (q # qs) s =
     (case exec q (current s) of
        Inl msg \<Rightarrow>
          (case runBestEffort exec (Suc i) qs s of
             (rs, tr, ok, s') \<Rightarrow>
               (\<lparr>statement = q, success = False, errorMessage = Some msg, rowsAffected = 0\<rparr> # rs,
                Exec i # tr, False, s'))
      | Inr (d', n) \<Rightarrow>
          (case runBestEffort exec (Suc i) qs (s\<lparr>current := d'\<rparr>) of
             (rs, tr, ok, s') \<Rightarrow>
               (\<lparr>statement = q, success = True, errorMessage = None, rowsAffected = n\<rparr> # rs,
                Exec i # tr, ok, s')))"

definition execute ::
    "('s \<Rightarrow> 'db \<Rightarrow> string + 'db \<times> nat) \<Rightarrow> 's list \<Rightarrow> bool \<Rightarrow> 'db DbSession
      \<Rightarrow> ('s, 'db) BatchResult" where
  "execute exec script atomic s =
     (if atomic then
        (case runAtomic exec 0 script (beginTransaction s) of
           (rs, tr, None, s') \<Rightarrow>
             \<lparr>statements = rs, overallSuccess = True, abortedAt = None, finalState = Committed,
              session = commitTransaction s', trace = Begin # tr @ [Commit]\<rparr>
         | (rs, tr, Some k, s') \<Rightarrow>
             \<lparr>statements = rs, overallSuccess = False, abortedAt = Some k, finalState = RolledBack,
              session = rollbackTransaction s', trace = Begin # tr @ [Rollback]\<rparr>)
      else
        (case runBestEffort exec 0 script s of
           (rs, tr, ok, s') \<Rightarrow>
             \<lparr>statements = rs, overallSuccess = ok, abortedAt = None,
              finalState = (if ok then Committed else PartiallyApplied),
              session = s', trace = tr\<rparr>))"

text \<open>
  To state the atomic property: the database state after the statements \<open>qs\<close> have all
  succeeded one after the other, \<open>None\<close> if one of them is rejected.
\<close>

fun runAll :: "('s \<Rightarrow> 'db \<Rightarrow> string + 'db \<times> nat) \<Rightarrow> 's list \<Rightarrow> 'db \<Rightarrow> 'db option" where
  "runAll exec [] d0 = Some d0"
| "runAll exec (q # qs) d0 =
     (case exec q d0 of Inl msg \<Rightarrow> None | Inr (d', n) \<Rightarrow> runAll exec qs d')"

text \<open>
  A small backend for examples: the database is a number, a statement adds to it or is
  malformed.
\<close>

definition counterExec :: "int option \<Rightarrow> int \<Rightarrow> string + int \<times> nat" where
  "counterExec q d0 = (case q of None \<Rightarrow> Inl ''syntax error'' | Some n \<Rightarrow> Inr (d0 + n, 1))"

section \<open>The row mutation reconciler\<close>

text \<open>
  Modelled from the spec: \<^verbatim>\<open>update(table, before, after)\<close> of the Row Mutation Reconciler
  (\<^verbatim>\<open>dbService.updateRow\<close>, \<^verbatim>\<open>pgService.updateRow\<close>), whose code is not among the sources;
  only its calls in \<^verbatim>\<open>handleUpdateRow\<close> are. The spec: the SET clause includes only the
  columns whose value differs between \<open>before\<close> and \<open>after\<close>; the WHERE clause matches
  every column in \<open>before\<close> by value, ``equality, with explicit NULL-safe comparison for
  null-valued columns''; the call fails with \<^verbatim>\<open>NoSuchRow\<close> if the affected count is 0 and
  with \<^verbatim>\<open>AmbiguousMatch\<close> if it is greater than 1; \<open>before = after\<close> is a no-op returning 0.
\<close>

datatype sqlValue =
    SqlNull | SqlInteger int | SqlReal real | SqlText string | SqlBoolean bool | SqlBinary "nat list"

type_synonym RowSnapshot = "(string \<times> sqlValue) list"

datatype condition = IsNull string | Equals string sqlValue

record UpdateStatement =
  update_table :: string
  setClause :: "(string \<times> sqlValue) list"
  whereClause :: "condition list"

definition nullSafe :: "string \<times> sqlValue \<Rightarrow> condition" where
  "nullSafe cv = (if snd cv = SqlNull then IsNull (fst cv) else Equals (fst cv) (snd cv))"

definition buildUpdate :: "string \<Rightarrow> RowSnapshot \<Rightarrow> RowSnapshot \<Rightarrow> UpdateStatement" where
  "buildUpdate t before after =
     \<lparr>update_table = t,
      setClause = filter (\<lambda>cv. map_of before (fst cv) \<noteq> Some (snd cv)) after,
      whereClause = map nullSafe before\<rparr>"

text \<open>
  The backend's evaluation of a condition on a stored row: \<^verbatim>\<open>c = v\<close> is true only of a
  stored value that is not null and equals \<open>v\<close>, \<^verbatim>\<open>c IS NULL\<close> only of a stored null.
\<close>

fun holds :: "RowSnapshot \<Rightarrow> condition \<Rightarrow> bool" where
  "holds row (IsNull c) = (map_of row c = Some SqlNull)"
| "holds row (Equals c v) = (v \<noteq> SqlNull \<and> map_of row c = Some v)"

definition matches :: "UpdateStatement \<Rightarrow> RowSnapshot \<Rightarrow> bool" where
  "matches stmt row = list_all (holds row) (whereClause stmt)"

definition applySet :: "(string \<times> sqlValue) list \<Rightarrow> RowSnapshot \<Rightarrow> RowSnapshot" where
  "applySet sets row =
     map (\<lambda>cv. case map_of sets (fst cv) of None \<Rightarrow> cv | Some v \<Rightarrow> (fst cv, v)) row"

datatype MutationError = NoSuchRow | AmbiguousMatch | MissingPrimaryKey

text \<open>\<open>rows\<close> are the stored rows of the table; the result is the affected count and the new rows.\<close>

definition update ::
    "RowSnapshot list \<Rightarrow> string \<Rightarrow> RowSnapshot \<Rightarrow> RowSnapshot
      \<Rightarrow> MutationError + nat \<times> RowSnapshot list" where
  "update rows t before after =
     (let stmt = buildUpdate t before after;
          affected = length (filter (matches stmt) rows)
      in if setClause stmt = [] then Inr (0, rows)
         else if affected = 0 then Inl NoSuchRow
         else if affected > 1 then Inl AmbiguousMatch
         else Inr (affected,
                   map (\<lambda>row. if matches stmt row then applySet (setClause stmt) row else row) rows))"

text \<open>A stored row equals the last-read snapshot: it has every column of it, with the same value.\<close>

definition equalsSnapshot :: "RowSnapshot \<Rightarrow> RowSnapshot \<Rightarrow> bool" where
  "equalsSnapshot before row = list_all (\<lambda>cv. map_of row (fst cv) = Some (snd cv)) before"

text \<open>The column a condition is about.\<close>

fun conditionColumn :: "condition \<Rightarrow> string" where
  "conditionColumn (IsNull c) = c"
| "conditionColumn (Equals c v) = c"


text \<open>An example: a snapshot with a null column, and the same row with a new name.\<close>

definition exampleBefore :: RowSnapshot where
  "exampleBefore = [(''id'', SqlInteger 1), (''name'', SqlText ''ann''), (''email'', SqlNull)]"

definition exampleAfter :: RowSnapshot where
  "exampleAfter = [(''id'', SqlInteger 1), (''name'', SqlText ''anna''), (''email'', SqlNull)]"

text \<open>The stored row after somebody else has set the e-mail address.\<close>

definition exampleStored :: RowSnapshot where
  "exampleStored = [(''id'', SqlInteger 1), (''name'', SqlText ''ann''), (''email'', SqlText ''a@b.c'')]"

section \<open>Properties of the layout algorithm\<close>

subsection \<open>Termination of the level computation\<close>


lemma calculateLevel_visited_mono:
  "calculateLevel d rel n c st = Some (l, st') \<Longrightarrow> visited st \<subseteq> visited st'"
  "calculateLevelRefs d rel refs c m st = Some (l, st') \<Longrightarrow> visited st \<subseteq> visited st'"
proof (induction d rel n c st and d rel refs c m st arbitrary: l st' and l st'
       rule: calculateLevel_calculateLevelRefs.induct)
  case (1 rel tableName currentLevel st)
  then show ?case by simp
next
  case (2 d rel tableName currentLevel st)
  show ?case
  proof (cases "tableName \<in> visited st")
    case True
    with 2(2) show ?thesis by simp
  next
    case False
    show ?thesis
    proof (cases "rel tableName")
      case None
      with False 2(2) show ?thesis by (auto simp: Let_def)
    next
      case (Some refs)
      with False 2(2) obtain m st2 where
        r: "calculateLevelRefs d rel refs currentLevel currentLevel
              (st\<lparr>visited := insert tableName (visited st)\<rparr>) = Some (m, st2)"
        and st': "st' = st2\<lparr>levels := (levels st2)(tableName \<mapsto> m)\<rparr>"
        by (auto simp: Let_def split: option.splits)
      from 2(1)[OF False refl Some r] st' show ?thesis by auto
    qed
  qed
next
  case (3 d rel currentLevel maxLevel st)
  then show ?case by simp
next
  case (4 d rel ref refs currentLevel maxLevel st)
  show ?case
  proof (cases "ref \<in> visited st")
    case True
    with 4 show ?thesis by simp
  next
    case False
    with 4(4) obtain rl st1 where
      c: "calculateLevel d rel ref (currentLevel + 1) st = Some (rl, st1)"
      and r: "calculateLevelRefs d rel refs currentLevel (max maxLevel currentLevel) st1 = Some (l, st')"
      by (auto split: option.splits)
    from 4(1)[OF False c] 4(2)[OF False c refl r] show ?thesis by blast
  qed
qed

lemma calculateLevel_levels:
  "calculateLevel d rel n c st = Some (l, st') \<Longrightarrow>
     n \<in> visited st' \<and> dom (levels st) \<subseteq> dom (levels st') \<and>
     visited st' - visited st \<subseteq> dom (levels st')"
  "calculateLevelRefs d rel refs c m st = Some (l, st') \<Longrightarrow>
     dom (levels st) \<subseteq> dom (levels st') \<and> visited st' - visited st \<subseteq> dom (levels st')"
proof (induction d rel n c st and d rel refs c m st arbitrary: l st' and l st'
       rule: calculateLevel_calculateLevelRefs.induct)
  case (1 rel tableName currentLevel st)
  then show ?case by simp
next
  case (2 d rel tableName currentLevel st)
  show ?case
  proof (cases "tableName \<in> visited st")
    case True
    with 2(2) show ?thesis by auto
  next
    case False
    show ?thesis
    proof (cases "rel tableName")
      case None
      with False 2(2) show ?thesis by (auto simp: Let_def)
    next
      case (Some refs)
      let ?st1 = "st\<lparr>visited := insert tableName (visited st)\<rparr>"
      from Some False 2(2) obtain m st2 where
        r: "calculateLevelRefs d rel refs currentLevel currentLevel ?st1 = Some (m, st2)"
        and st': "st' = st2\<lparr>levels := (levels st2)(tableName \<mapsto> m)\<rparr>"
        by (auto simp: Let_def split: option.splits)
      have ih: "dom (levels ?st1) \<subseteq> dom (levels st2) \<and>
                visited st2 - visited ?st1 \<subseteq> dom (levels st2)"
        using 2(1)[OF False refl Some r] .
      have mono: "visited ?st1 \<subseteq> visited st2"
        using calculateLevel_visited_mono(2)[OF r] .
      from ih mono st' show ?thesis by auto
    qed
  qed
next
  case (3 d rel currentLevel maxLevel st)
  then show ?case by simp
next
  case (4 d rel ref refs currentLevel maxLevel st)
  show ?case
  proof (cases "ref \<in> visited st")
    case True
    with 4 show ?thesis by simp
  next
    case False
    with 4(4) obtain rl st1 where
      c: "calculateLevel d rel ref (currentLevel + 1) st = Some (rl, st1)"
      and r: "calculateLevelRefs d rel refs currentLevel (max maxLevel currentLevel) st1 = Some (l, st')"
      by (auto split: option.splits)
    from 4(1)[OF False c] 4(2)[OF False c refl r] show ?thesis by blast
  qed
qed

lemma calculateLevel_returns:
  "finite (dom rel) \<Longrightarrow> card (dom rel - visited st) < d \<Longrightarrow>
     \<exists>r. calculateLevel d rel n c st = Some r"
  "finite (dom rel) \<Longrightarrow> card (dom rel - visited st) < d \<Longrightarrow>
     \<exists>r. calculateLevelRefs d rel refs c m st = Some r"
proof (induction d rel n c st and d rel refs c m st
       rule: calculateLevel_calculateLevelRefs.induct)
  case (1 rel tableName currentLevel st)
  then show ?case by simp
next
  case (2 d rel tableName currentLevel st)
  show ?case
  proof (cases "tableName \<in> visited st")
    case True
    then show ?thesis by simp
  next
    case False
    show ?thesis
    proof (cases "rel tableName")
      case None
      with False show ?thesis by (simp add: Let_def)
    next
      case (Some refs)
      let ?st1 = "st\<lparr>visited := insert tableName (visited st)\<rparr>"
      have "tableName \<in> dom rel - visited st" using Some False by auto
      moreover have "dom rel - visited ?st1 = (dom rel - visited st) - {tableName}" by auto
      ultimately have "card (dom rel - visited ?st1) < card (dom rel - visited st)"
        using 2(2) card_Diff1_less[of "dom rel - visited st" tableName] by simp
      with 2(3) have less: "card (dom rel - visited ?st1) < d" by simp
      from 2(1)[OF False refl Some 2(2) less] obtain m st2 where
        "calculateLevelRefs d rel refs currentLevel currentLevel ?st1 = Some (m, st2)"
        by auto
      with False Some show ?thesis by (simp add: Let_def)
    qed
  qed
next
  case (3 d rel currentLevel maxLevel st)
  then show ?case by simp
next
  case (4 d rel ref refs currentLevel maxLevel st)
  show ?case
  proof (cases "ref \<in> visited st")
    case True
    with 4 show ?thesis by simp
  next
    case False
    from "4.IH"(1)[OF False "4.prems"] obtain rl st1 where
      c: "calculateLevel d rel ref (currentLevel + 1) st = Some (rl, st1)" by auto
    have "visited st \<subseteq> visited st1" using calculateLevel_visited_mono(1)[OF c] .
    then have "dom rel - visited st1 \<subseteq> dom rel - visited st" by auto
    then have "card (dom rel - visited st1) \<le> card (dom rel - visited st)"
      using "4.prems"(1) by (simp add: card_mono)
    with "4.prems"(2) have less: "card (dom rel - visited st1) < d" by simp
    from "4.IH"(2)[OF False c refl "4.prems"(1) less] False c show ?thesis by simp
  qed
qed

lemma calculateLevel2_eq:
  "calculateLevel2 d rel n c st = calculateLevel d rel n c st"
  "calculateLevelRefs2 d rel refs c m st = calculateLevelRefs d rel refs c m st"
proof (induction d rel n c st and d rel refs c m st
       rule: calculateLevel_calculateLevelRefs.induct)
  case (1 rel tableName currentLevel st)
  then show ?case by simp
next
  case (2 d rel tableName currentLevel st)
  then show ?case by (simp add: Let_def split: option.splits)
next
  case (3 d rel currentLevel maxLevel st)
  then show ?case by simp
next
  case (4 d rel ref refs currentLevel maxLevel st)
  then show ?case by (auto split: option.splits)
qed


lemma dom_addTo: "dom (addTo m k v) = dom m"
  by (auto simp: addTo_def split: option.splits)

lemma dom_addForeignKeys: "dom (fst (addForeignKeys tn fks rs)) = dom (fst rs)"
  by (induction tn fks rs rule: addForeignKeys.induct) (simp_all add: dom_addTo)

lemma dom_addAllForeignKeys: "dom (fst (addAllForeignKeys ts rs)) = dom (fst rs)"
  by (induction ts rs rule: addAllForeignKeys.induct) (simp_all add: dom_addForeignKeys)

lemma dom_initRelationships:
  "dom (fst (initRelationships ts rs)) = dom (fst rs) \<union> name ` set ts"
  by (induction ts rs rule: initRelationships.induct) auto

lemma dom_buildRelationships: "dom (fst (buildRelationships tbls)) = name ` set tbls"
  by (simp add: buildRelationships_def dom_addAllForeignKeys dom_initRelationships)

lemma card_dom_buildRelationships:
  "card (dom (fst (buildRelationships tbls))) \<le> length tbls"
proof -
  have "card (name ` set tbls) \<le> card (set tbls)" by (rule card_image_le) simp
  also have "\<dots> \<le> length tbls" by (rule card_length)
  finally show ?thesis by (simp add: dom_buildRelationships)
qed

lemma calculateLevel_total:
  assumes "finite (dom rel)" and "card (dom rel) < d"
  shows "\<exists>l st'. calculateLevel d rel n c st = Some (l, st')"
proof -
  have "card (dom rel - visited st) \<le> card (dom rel)"
    using assms(1) by (simp add: card_mono)
  with assms(2) have "card (dom rel - visited st) < d" by simp
  from calculateLevel_returns(1)[OF assms(1) this] show ?thesis by auto
qed

lemma calculateLevel_levelled:
  assumes "calculateLevel d rel n c st = Some (l, st')" and "levelled st"
  shows "levelled st' \<and> n \<in> dom (levels st') \<and> dom (levels st) \<subseteq> dom (levels st')"
proof -
  from calculateLevel_levels(1)[OF assms(1)] have
    a: "n \<in> visited st'" and b: "dom (levels st) \<subseteq> dom (levels st')"
    and c: "visited st' - visited st \<subseteq> dom (levels st')" by auto
  from assms(2) b c have "visited st' \<subseteq> dom (levels st')"
    unfolding levelled_def by blast
  with a b show ?thesis unfolding levelled_def by blast
qed

lemma levelRoots_total:
  assumes "finite (dom rel)" and "card (dom rel) < d"
  shows "levelled st \<Longrightarrow>
    \<exists>st'. levelRoots (calculateLevel d rel) rel ts st = Some st' \<and> levelled st'"
proof (induction ts arbitrary: st)
  case Nil
  then show ?case by simp
next
  case (Cons t ts)
  show ?case
  proof (cases "rel (name t) = Some []")
    case True
    from calculateLevel_total[OF assms] obtain l st1 where
      c: "calculateLevel d rel (name t) 0 st = Some (l, st1)" by blast
    from calculateLevel_levelled[OF c Cons.prems] have "levelled st1" by simp
    from Cons.IH[OF this] True c show ?thesis by simp
  next
    case False
    with Cons show ?thesis by simp
  qed
qed

lemma levelRemaining_total:
  assumes "finite (dom rel)" and "card (dom rel) < d"
  shows "levelled st \<Longrightarrow>
    \<exists>st'. levelRemaining (calculateLevel d rel) ts st = Some st' \<and> levelled st' \<and>
          dom (levels st) \<subseteq> dom (levels st') \<and> name ` set ts \<subseteq> dom (levels st')"
proof (induction ts arbitrary: st)
  case Nil
  then show ?case by simp
next
  case (Cons t ts)
  show ?case
  proof (cases "levels st (name t) = None")
    case True
    from calculateLevel_total[OF assms] obtain l st1 where
      c: "calculateLevel d rel (name t) 0 st = Some (l, st1)" by blast
    from calculateLevel_levelled[OF c Cons.prems] have
      l1: "levelled st1" and n: "name t \<in> dom (levels st1)"
      and m: "dom (levels st) \<subseteq> dom (levels st1)" by auto
    from Cons.IH[OF l1] obtain st' where
      r: "levelRemaining (calculateLevel d rel) ts st1 = Some st'" and l': "levelled st'"
      and m': "dom (levels st1) \<subseteq> dom (levels st')" and a: "name ` set ts \<subseteq> dom (levels st')"
      by blast
    from True c r have "levelRemaining (calculateLevel d rel) (t # ts) st = Some st'" by simp
    moreover from n m m' a have
      "dom (levels st) \<subseteq> dom (levels st') \<and> name ` set (t # ts) \<subseteq> dom (levels st')" by auto
    ultimately show ?thesis using l' by blast
  next
    case False
    from Cons.IH[OF Cons.prems] obtain st' where
      r: "levelRemaining (calculateLevel d rel) ts st = Some st'" and l': "levelled st'"
      and m': "dom (levels st) \<subseteq> dom (levels st')" and a: "name ` set ts \<subseteq> dom (levels st')"
      by blast
    from False r have "levelRemaining (calculateLevel d rel) (t # ts) st = Some st'" by auto
    moreover from False m' a have "name ` set (t # ts) \<subseteq> dom (levels st')" by auto
    ultimately show ?thesis using l' m' by blast
  qed
qed

lemma calculateLevels_total:
  assumes "length tbls < d"
  shows "\<exists>st. calculateLevels d tbls = Some st \<and> name ` set tbls \<subseteq> dom (levels st)"
proof -
  let ?rel = "fst (buildRelationships tbls)"
  have fin: "finite (dom ?rel)" by (simp add: dom_buildRelationships)
  have card: "card (dom ?rel) < d"
    using card_dom_buildRelationships[of tbls] assms by simp
  have l0: "levelled \<lparr>levels = Map.empty, visited = {}\<rparr>" by (simp add: levelled_def)
  from levelRoots_total[OF fin card l0] obtain st1 where
    r: "levelRoots (calculateLevel d ?rel) ?rel tbls \<lparr>levels = Map.empty, visited = {}\<rparr> = Some st1"
    and l1: "levelled st1" by blast
  from levelRemaining_total[OF fin card l1] obtain st2 where
    "levelRemaining (calculateLevel d ?rel) tbls st1 = Some st2"
    and "name ` set tbls \<subseteq> dom (levels st2)" by blast
  with r show ?thesis by (simp add: calculateLevels_def levelsWith_def Let_def)
qed


lemma pushToGroup_keys:
  "set (map fst (pushToGroup l t gs)) = insert l (set (map fst gs))"
  by (induction l t gs rule: pushToGroup.induct) auto

lemma pushToGroup_distinct:
  "distinct (map fst gs) \<Longrightarrow> distinct (map fst (pushToGroup l t gs))"
proof (induction l t gs rule: pushToGroup.induct)
  case (1 l t)
  then show ?case by simp
next
  case (2 l t k ts gs)
  show ?case
  proof (cases "k = l")
    case True
    with 2 show ?thesis by simp
  next
    case False
    have "k \<notin> set (map fst (pushToGroup l t gs))"
      using False "2.prems" unfolding pushToGroup_keys by auto
    with False 2 show ?thesis by simp
  qed
qed

lemma pushToGroup_mset:
  "mset (concat (map snd (pushToGroup l t gs))) = mset (concat (map snd gs)) + {#t#}"
  by (induction l t gs rule: pushToGroup.induct) auto

lemma groupByLevel_distinct:
  "distinct (map fst gs) \<Longrightarrow> distinct (map fst (groupByLevel lv ts gs))"
  by (induction lv ts gs rule: groupByLevel.induct) (simp_all add: pushToGroup_distinct)

lemma groupByLevel_mset:
  "mset (concat (map snd (groupByLevel lv ts gs))) = mset (concat (map snd gs)) + mset ts"
  by (induction lv ts gs rule: groupByLevel.induct) (simp_all add: pushToGroup_mset)

lemma map_concat_enumerate:
  assumes "\<And>i k. map g (F i k) = h k"
  shows "map g (concat (map (\<lambda>(i, k). F i k) (enumerate n ks))) = concat (map h ks)"
  using assms by (induction ks arbitrary: n) simp_all

lemma mset_concat_map_cong:
  assumes "mset xs = mset ys"
  shows "mset (concat (map f xs)) = mset (concat (map f ys))"
proof -
  have "mset (concat (map f zs)) = (\<Sum>z\<in>#mset zs. mset (f z))" for zs
    by (induction zs) simp_all
  with assms show ?thesis by simp
qed

lemma groupOf_keys:
  "distinct (map fst gs) \<Longrightarrow> map (groupOf gs) (map fst gs) = map snd gs"
proof -
  assume d: "distinct (map fst gs)"
  have "groupOf gs (fst p) = snd p" if "p \<in> set gs" for p
  proof -
    from that have "(fst p, snd p) \<in> set gs" by simp
    with d have "map_of gs (fst p) = Some (snd p)" by (rule map_of_is_SomeI)
    then show ?thesis by (simp add: groupOf_def)
  qed
  then show ?thesis by simp
qed

lemma levelNodes_map:
  assumes "\<And>x y t. g (mk x y t) = h t"
  shows "map g (levelNodes mk i ts) = map h ts"
proof -
  have "map (\<lambda>p. h (snd p)) (enumerate n ts) = map h ts" for n
    by (induction ts arbitrary: n) simp_all
  then show ?thesis
    by (simp add: levelNodes_def Let_def assms comp_def case_prod_beta)
qed

lemma positionNodes_mset:
  assumes "distinct (map fst gs)" and "\<And>x y t. g (mk x y t) = h t"
  shows "mset (map g (positionNodes mk gs)) = mset (map h (concat (map snd gs)))"
proof -
  let ?f = "\<lambda>k. map h (groupOf gs k)"
  have a: "map g (positionNodes mk gs) = concat (map ?f (sortedLevels gs))"
    unfolding positionNodes_def
    by (rule map_concat_enumerate) (rule levelNodes_map, rule assms(2))
  have b: "mset (concat (map ?f (sortedLevels gs))) = mset (concat (map ?f (map fst gs)))"
    by (rule mset_concat_map_cong) (simp add: sortedLevels_def)
  have "map ?f (map fst gs) = map (map h) (map (groupOf gs) (map fst gs))"
    by (simp add: comp_def)
  also have "\<dots> = map (map h) (map snd gs)"
    by (simp only: groupOf_keys[OF assms(1)])
  finally have c: "concat (map ?f (map fst gs)) = map h (concat (map snd gs))"
    by (simp only: map_concat)
  show ?thesis by (simp only: a b c)
qed

lemma groupByLevel_positionNodes:
  assumes "\<And>x y t. g (mk x y t) = h t"
  shows "mset (map g (positionNodes mk (groupByLevel lv tbls []))) = mset (map h tbls)"
proof -
  have "distinct (map fst (groupByLevel lv tbls []))"
    by (rule groupByLevel_distinct) simp
  from positionNodes_mset[where g = g and mk = mk and h = h, OF this assms] have
    "mset (map g (positionNodes mk (groupByLevel lv tbls [])))
       = image_mset h (mset (concat (map snd (groupByLevel lv tbls []))))"
    by simp
  then show ?thesis by (simp add: groupByLevel_mset)
qed

lemma nodeTable_tableNode: "nodeTable (tableNode x y t) = t"
  by (simp add: nodeTable_def tableNode_def)

lemma calculateLevels2_eq: "calculateLevels2 d tbls = calculateLevels d tbls"
proof -
  have "calculateLevel2 d = calculateLevel d"
    by (intro ext) (rule calculateLevel2_eq(1))
  then show ?thesis by (simp add: calculateLevels2_def calculateLevels_def)
qed

lemma tableNode2_tableNode:
  "tableNode2 cb x y t = (tableNode x y t)\<lparr>node_data := (node_data (tableNode x y t))\<lparr>onEdit := cb\<rparr>\<rparr>"
  by (simp add: tableNode_def tableNode2_def)

lemma levelNodes_tableNode2:
  "levelNodes (tableNode2 cb) i ts
     = map (\<lambda>n. n\<lparr>node_data := (node_data n)\<lparr>onEdit := cb\<rparr>\<rparr>) (levelNodes tableNode i ts)"
  by (simp add: levelNodes_def Let_def comp_def case_prod_beta tableNode2_tableNode)

lemma positionNodes_tableNode2:
  "positionNodes (tableNode2 cb) gs
     = map (\<lambda>n. n\<lparr>node_data := (node_data n)\<lparr>onEdit := cb\<rparr>\<rparr>) (positionNodes tableNode gs)"
  by (simp add: positionNodes_def map_concat comp_def case_prod_unfold levelNodes_tableNode2)

lemma fkEdge2_fkEdge:
  "fkEdge2 t = (\<lambda>fk. (fkEdge t fk)\<lparr>style := edgeStyle2, labelStyle_fill := ''#ffffff''\<rparr>)"
  by (intro ext) (simp add: fkEdge_def fkEdge2_def)

lemma createEdges2_restyle:
  "createEdges2 tbls
     = map (\<lambda>e. e\<lparr>style := edgeStyle2, labelStyle_fill := ''#ffffff''\<rparr>) (createEdges tbls)"
  by (simp add: createEdges2_def createEdges_def map_concat comp_def fkEdge2_fkEdge)

lemma calculateLayout2_restyle:
  "calculateLayout2 d tbls cb = map_option (restyle cb) (calculateLayout d tbls)"
  by (simp add: calculateLayout2_def calculateLayout_def calculateLevels2_eq restyle_def
        positionNodes_tableNode2 createEdges2_restyle split: option.splits)

lemma createEdges_endpoints:
  "map (\<lambda>e. (source e, target e)) (createEdges tbls)
     = concat (map (\<lambda>t. map (\<lambda>fk. (name t, fk_table fk)) (foreignKeys t)) tbls)"
  by (simp add: createEdges_def map_concat comp_def fkEdge_def)

subsection \<open>The claims about the layout\<close>

text \<open>
  Claim C3. For every finite list of tables, whatever directed graph their foreign keys
  form (self-references and cycles included), \<^verbatim>\<open>calculateLayout\<close> returns: the recursion
  of \<^verbatim>\<open>calculateLevel\<close> never goes deeper than the number of tables plus one, so with
  more stack frames than tables there is a result. In it every input table has a level
  and a node, and hence a position.
\<close>

theorem calculateLayout_terminates:
  assumes "length tbls < d"
  shows "\<exists>st l. calculateLevels d tbls = Some st \<and> calculateLayout d tbls = Some l \<and>
           (\<forall>t \<in> set tbls. (\<exists>lv. levels st (name t) = Some lv) \<and>
                               (\<exists>n \<in> set (nodes l). node_id n = name t))"
proof -
  from calculateLevels_total[OF assms] obtain st where
    st: "calculateLevels d tbls = Some st" and lv: "name ` set tbls \<subseteq> dom (levels st)"
    by blast
  define l :: "('a, 'b, 'c) Layout" where
    "l = \<lparr>nodes = positionNodes tableNode (groupByLevel (levels st) tbls []),
          edges = createEdges tbls\<rparr>"
  have lay: "calculateLayout d tbls = Some l"
    by (simp add: calculateLayout_def st l_def)
  have "mset (map node_id (nodes l)) = mset (map name tbls)"
    unfolding l_def using groupByLevel_positionNodes[of node_id tableNode name]
    by (simp add: tableNode_def)
  then have "set (map node_id (nodes l)) = set (map name tbls)"
    by (rule mset_eq_setD)
  then have "\<forall>t \<in> set tbls. \<exists>n \<in> set (nodes l). node_id n = name t"
    by (metis (no_types, lifting) image_iff list.set_map)
  with st lay lv show ?thesis by blast
qed

text \<open>The bound holds for the cyclic schema \<open>cyclicTables\<close> with four stack frames.\<close>

theorem calculateLayout_terminates_witness:
  "length cyclicTables < 4 \<and>
   (\<exists>st (l :: (unit, unit, unit) Layout).
      calculateLevels 4 cyclicTables = Some st \<and> calculateLayout 4 cyclicTables = Some l \<and>
      (\<forall>t \<in> set cyclicTables. (\<exists>lv. levels st (name t) = Some lv) \<and>
                               (\<exists>n \<in> set (nodes l). node_id n = name t)))"
proof -
  have h: "length cyclicTables < 4" by (simp add: cyclicTables_def)
  from calculateLayout_terminates[OF h] h show ?thesis by blast
qed

text \<open>
  The bound depends on the input: with room for a single call, the two-table cycle of the
  same schema overflows the stack.
\<close>

lemma calculateLayout_needs_stack: "calculateLayout 1 cyclicTables = None"
  by (simp add: calculateLayout_def calculateLevels_def levelsWith_def buildRelationships_def
        cyclicTables_def addTo_def setAdd_def Let_def)

text \<open>
  Claim C9. \<^verbatim>\<open>calculateLayout\<close> returns exactly one node per input table, carrying that
  table's name as id and its columns, foreign keys and indexes as data (the nodes read
  back as tables are the input tables, as multisets), and exactly one edge per foreign key
  of every table, in input order, from the owning table to the referenced table.
\<close>

theorem calculateLayout_nodes_edges:
  assumes "length tbls < d"
  shows "\<exists>l. calculateLayout d tbls = Some l \<and>
           mset (map nodeTable (nodes l)) = mset tbls \<and>
           mset (map node_id (nodes l)) = mset (map name tbls) \<and>
           length (nodes l) = length tbls \<and>
           map (\<lambda>e. (source e, target e)) (edges l)
             = concat (map (\<lambda>t. map (\<lambda>fk. (name t, fk_table fk)) (foreignKeys t)) tbls)"
proof -
  from calculateLevels_total[OF assms] obtain st where
    st: "calculateLevels d tbls = Some st" by blast
  define l :: "('a, 'b, 'c) Layout" where
    "l = \<lparr>nodes = positionNodes tableNode (groupByLevel (levels st) tbls []),
          edges = createEdges tbls\<rparr>"
  have lay: "calculateLayout d tbls = Some l"
    by (simp add: calculateLayout_def st l_def)
  have a: "mset (map nodeTable (nodes l)) = mset tbls"
    unfolding l_def using groupByLevel_positionNodes[of nodeTable tableNode "\<lambda>t. t"]
    by (simp add: nodeTable_tableNode)
  have b: "mset (map node_id (nodes l)) = mset (map name tbls)"
    unfolding l_def using groupByLevel_positionNodes[of node_id tableNode name]
    by (simp add: tableNode_def)
  from b have c: "length (nodes l) = length tbls"
    by (metis length_map size_mset)
  have e: "map (\<lambda>e. (source e, target e)) (edges l)
             = concat (map (\<lambda>t. map (\<lambda>fk. (name t, fk_table fk)) (foreignKeys t)) tbls)"
    by (simp add: l_def createEdges_endpoints)
  from lay a b c e show ?thesis by blast
qed

text \<open>The same on the cyclic schema \<open>cyclicTables\<close>.\<close>

theorem calculateLayout_nodes_edges_witness:
  "length cyclicTables < 4 \<and>
   (\<exists>l :: (unit, unit, unit) Layout. calculateLayout 4 cyclicTables = Some l \<and>
      mset (map nodeTable (nodes l)) = mset cyclicTables \<and>
      mset (map node_id (nodes l)) = mset (map name cyclicTables) \<and>
      length (nodes l) = length cyclicTables \<and>
      map (\<lambda>e. (source e, target e)) (edges l)
        = concat (map (\<lambda>t. map (\<lambda>fk. (name t, fk_table fk)) (foreignKeys t)) cyclicTables))"
proof -
  have h: "length cyclicTables < 4" by (simp add: cyclicTables_def)
  from calculateLayout_nodes_edges[OF h] h show ?thesis by blast
qed

text \<open>
  Claim C10. The two versions of \<^verbatim>\<open>calculateLayout\<close> compute the same levels, the same
  node ids and positions and the same edge endpoints and handles, on every input and with
  every stack bound (so one overflows exactly when the other does); the second layout is
  the first with the \<^verbatim>\<open>onEdit\<close> field set and the edge colours changed.
\<close>

theorem calculateLayout_versions_agree:
  "calculateLevels2 d tbls = calculateLevels d tbls \<and>
   map_option (\<lambda>l. map (\<lambda>n. (node_id n, position n)) (nodes l))
       (calculateLayout2 d tbls (onEditTable :: 'f option))
     = map_option (\<lambda>l. map (\<lambda>n. (node_id n, position n)) (nodes l))
         (calculateLayout d tbls :: ('c, 'i, 'f) Layout option) \<and>
   map_option (\<lambda>l. map (\<lambda>e. (source e, sourceHandle e, target e, targetHandle e)) (edges l))
       (calculateLayout2 d tbls onEditTable)
     = map_option (\<lambda>l. map (\<lambda>e. (source e, sourceHandle e, target e, targetHandle e)) (edges l))
         (calculateLayout d tbls :: ('c, 'i, 'f) Layout option) \<and>
   calculateLayout2 d tbls onEditTable = map_option (restyle onEditTable) (calculateLayout d tbls)"
  by (simp add: calculateLevels2_eq calculateLayout2_restyle option.map_comp comp_def restyle_def)

section \<open>Properties of the database view\<close>

subsection \<open>Row updates and deletes\<close>

lemma isDeleteOperation_DeleteOperation: "isDeleteOperation (DeleteOperation ids pk)"
  by (simp add: isDeleteOperation_def DeleteOperation_def)

lemma rowIds_DeleteOperation: "rowIds (DeleteOperation ids pk) = ids"
  by (simp add: rowIds_def DeleteOperation_def)

lemma primaryKeyColumn_DeleteOperation: "primaryKeyColumn (DeleteOperation ids pk) = pk"
  by (simp add: primaryKeyColumn_def DeleteOperation_def)

text \<open>
  Claim C1. The row identifiers of a delete are to reach the backend as typed parameters,
  never inside the SQL text, on both backend paths. The PostgreSQL path hands the
  identifiers to \<^verbatim>\<open>pgService.deleteRows\<close> as a list. The embedded path does not: for the
  identifiers \<open>1\<close> and \<open>2\<close> it sends one SQL text in which they are quoted as text literals.
\<close>

theorem handleUpdateRow_delete_interpolates:
  "calls (handleUpdateRow respond ''users'' False None (DeleteOperation [''1'', ''2''] ''id''))
     = [DbExecuteBatchOperations [''DELETE FROM users WHERE id IN ('1','2')'']] \<and>
   calls (handleUpdateRow respond ''users'' True None (DeleteOperation [''1'', ''2''] ''id''))
     = [PgDeleteRows ''users'' ''id'' [''1'', ''2'']]"
  by (simp add: handleUpdateRow_def deleteSql_def isDeleteOperation_DeleteOperation
        rowIds_DeleteOperation primaryKeyColumn_DeleteOperation Let_def split: option.splits)

text \<open>On the embedded path an identifier with a quote in it changes the statement.\<close>

lemma handleUpdateRow_delete_injection:
  "calls (handleUpdateRow respond ''users'' False None
            (DeleteOperation [''1') OR ('1'='1''] ''id''))
     = [DbExecuteBatchOperations [''DELETE FROM users WHERE id IN ('1') OR ('1'='1')'']]"
  by (simp add: handleUpdateRow_def deleteSql_def isDeleteOperation_DeleteOperation
        rowIds_DeleteOperation primaryKeyColumn_DeleteOperation Let_def)

text \<open>
  Claim C8. With no table selected, or for a request that is not a delete operation and
  has no prior row, \<^verbatim>\<open>handleUpdateRow\<close> resolves to \<open>false\<close> and calls neither service, on
  both backend paths.
\<close>

theorem handleUpdateRow_guard:
  assumes "selectedTable = [] \<or> (\<not> isDeleteOperation newRow \<and> oldRow = None)"
  shows "handleUpdateRow respond selectedTable pgActive oldRow newRow
           = \<lparr>resolved = Some False, calls = [], toasts = []\<rparr>"
  using assms by (auto simp: handleUpdateRow_def)

text \<open>No table selected; and an update without a prior row, on either backend.\<close>

theorem handleUpdateRow_guard_witness:
  "handleUpdateRow (\<lambda>c. Some True) [] True (Some [(''id'', JNumber 1)])
       (DeleteOperation [''1''] ''id'')
     = \<lparr>resolved = Some False, calls = [], toasts = []\<rparr> \<and>
   handleUpdateRow (\<lambda>c. Some True) ''users'' False None
       [(''id'', JNumber 1), (''name'', JString ''x'')]
     = \<lparr>resolved = Some False, calls = [], toasts = []\<rparr> \<and>
   handleUpdateRow (\<lambda>c. Some True) ''users'' True None
       [(''id'', JNumber 1), (''name'', JString ''x'')]
     = \<lparr>resolved = Some False, calls = [], toasts = []\<rparr>"
proof -
  have a: "\<not> isDeleteOperation [(''id'', JNumber 1), (''name'', JString ''x'')]"
    by (simp add: isDeleteOperation_def)
  show ?thesis
    using handleUpdateRow_guard[of "[]" "DeleteOperation [''1''] ''id''"
            "Some [(''id'', JNumber 1)]" "\<lambda>c. Some True" True]
      handleUpdateRow_guard[of "''users''" "[(''id'', JNumber 1), (''name'', JString ''x'')]"
            None "\<lambda>c. Some True" False]
      handleUpdateRow_guard[of "''users''" "[(''id'', JNumber 1), (''name'', JString ''x'')]"
            None "\<lambda>c. Some True" True]
      a
    by simp
qed

subsection \<open>Backend selection\<close>

text \<open>
  Claim C4. In every render state the table list and every accessor (columns, foreign
  keys, indexes, table data) come from the PostgreSQL implementation if and only if a
  PostgreSQL connection is active, and from the embedded implementation otherwise: all of
  them from the same backend, and the two backends are never both active.
\<close>

theorem backend_dispatch:
  "isPostgresActive h = isConnected h \<and>
   \<not> (isPostgresActive h \<and> isSqliteActive h) \<and>
   tables h = (if isConnected h then postgresTables h else sqliteTables h) \<and>
   getTableColumnsStable (render h)
     = (if isConnected h then getTableColumns (postgresFuncs h) else getTableColumns (sqliteFuncs h)) \<and>
   getForeignKeysStable (render h)
     = (if isConnected h then getForeignKeys (postgresFuncs h) else getForeignKeys (sqliteFuncs h)) \<and>
   getIndexesStable (render h)
     = (if isConnected h then getIndexes (postgresFuncs h) else getIndexes (sqliteFuncs h)) \<and>
   loadTableData (render h)
     = (if isConnected h
        then (\<lambda>t. (getTableColumns (postgresFuncs h) t, getTableData (postgresFuncs h) t))
        else (\<lambda>t. (getTableColumns (sqliteFuncs h) t, getTableData (sqliteFuncs h) t)))"
  by (auto simp: isPostgresActive_def isSqliteActive_def tables_def render_def
        getTableColumnsStable_def getForeignKeysStable_def getIndexesStable_def loadTableData_def
        fun_eq_iff)

subsection \<open>Saving\<close>

text \<open>
  Claim C5. For an embedded session the export fails exactly when there are no changes to
  export, the failure is the value \<open>None\<close> and not an exception, and on it
  \<^verbatim>\<open>handleSaveDatabase\<close> shows ``No database changes to save'' and writes nothing.
\<close>

theorem save_nothing_to_export:
  "(exportDatabase s = None \<longleftrightarrow> \<not> dirty s) \<and>
   (exportDatabase s = None \<longrightarrow>
      handleSaveDatabase False (exportDatabase s) currentFilePath electron
        = \<lparr>writes = [],
           saveToasts = [\<lparr>title = ''Error'', description = ''No database changes to save'',
                          variant = Some ''destructive''\<rparr>],
           lastSavedSet = False\<rparr>)"
  by (simp add: exportDatabase_def handleSaveDatabase_def)

text \<open>A clean session, with a file path and a writer at hand; and a dirty one.\<close>

theorem save_nothing_to_export_witness:
  "exportDatabase \<lparr>memory = [1::nat, 2], dirty = False\<rparr> = None \<and>
   writes (handleSaveDatabase False (exportDatabase \<lparr>memory = [1::nat, 2], dirty = False\<rparr>)
             (Some ''/tmp/a.db'') (Some (\<lambda>p b. SaveReplied True None))) = [] \<and>
   exportDatabase \<lparr>memory = [1::nat, 2], dirty = True\<rparr> \<noteq> None"
  using save_nothing_to_export[of "\<lparr>memory = [1::nat, 2], dirty = False\<rparr>"
          "Some ''/tmp/a.db''" "Some (\<lambda>p b. SaveReplied True None)"]
        save_nothing_to_export[of "\<lparr>memory = [1::nat, 2], dirty = True\<rparr>"]
  by simp

section \<open>Properties of the schema visualizer component\<close>


lemma calculateLayout_single:
  "calculateLayout 8 [\<lparr>name = tn, columns = [], foreignKeys = [], indexes = []\<rparr>]
     = Some \<lparr>nodes = [tableNode (- 50) 0 \<lparr>name = tn, columns = [], foreignKeys = [], indexes = []\<rparr>], edges = []\<rparr>"
  by (simp add: calculateLayout_def calculateLevels_def levelsWith_def buildRelationships_def
        eval_nat_numeral Let_def levelOr0_def positionNodes_def sortedLevels_def groupOf_def
        levelNodes_def createEdges_def nodeWidth_def horizontalGap_def nodeHeight_def verticalGap_def)

lemma mounted_eq:
  "mounted = (\<lparr>schemaData = [\<lparr>name = ''users'', columns = [], foreignKeys = [], indexes = []\<rparr>],
               hasLoaded = True, loading = False,
               state_nodes = [tableNode (- 50) 0 \<lparr>name = ''users'', columns = [], foreignKeys = [], indexes = []\<rparr>],
               state_edges = []\<rparr>, Some ''users'')"
  by (simp add: mounted_def rerender_def tableKey_def loadEffect_def loadSchema_def initialState_def
        propsFor_def loadTable_def orEmpty_def calculateLayout_single Let_def)

text \<open>
  Claim C2. A refresh that changes the set of tables is to invalidate the cached layout,
  also when the number of tables stays the same. After the rename the effect runs (the
  key is now \<open>orders\<close>) and returns at once, because the number of tables is still one:
  the cached schema data and nodes are those of \<open>users\<close>, while the layout of the new
  catalog has the node \<open>orders\<close>.
\<close>

theorem stale_layout_after_rename:
  "snd mounted = Some ''users'' \<and> snd refreshed = Some ''orders'' \<and>
   map name (schemaData (fst refreshed)) = [''users''] \<and>
   map node_id (state_nodes (fst refreshed)) = [''users''] \<and>
   map_option (\<lambda>l. map node_id (nodes l))
      (calculateLayout 8 [\<lparr>name = ''orders'', columns = [], foreignKeys = [], indexes = []\<rparr>]
         :: (unit, unit, unit) Layout option) = Some [''orders'']"
  by (simp add: refreshed_def mounted_eq rerender_def tableKey_def loadEffect_def propsFor_def
        calculateLayout_single tableNode_def Let_def)

section \<open>Properties of the batch execution engine\<close>

lemma runAtomic_first_failure:
  assumes "k < length script"
    and "runAll exec (take k script) (current s) = Some dk"
    and "exec (script ! k) dk = Inl msg"
  shows "\<exists>rs s'. runAtomic exec i script s = (rs, map Exec [i..<i + Suc k], Some (i + k), s') \<and>
           length rs = Suc k \<and> txStart s' = txStart s"
  using assms
proof (induction k arbitrary: i script s)
  case 0
  then obtain q qs where sc: "script = q # qs" by (cases script) auto
  with 0 show ?case by simp
next
  case (Suc k)
  then obtain q qs where sc: "script = q # qs" by (cases script) auto
  from Suc.prems(2) sc obtain d' n where
    e: "exec q (current s) = Inr (d', n)" and r: "runAll exec (take k qs) d' = Some dk"
    by (auto split: sum.splits)
  let ?s1 = "s\<lparr>current := d'\<rparr>"
  from Suc.prems(1) sc have k: "k < length qs" by simp
  from r have r': "runAll exec (take k qs) (current ?s1) = Some dk" by simp
  from Suc.prems(3) sc have f: "exec (qs ! k) dk = Inl msg" by simp
  from Suc.IH[OF k r' f, of "Suc i"] obtain rs s' where
    ih: "runAtomic exec (Suc i) qs ?s1 = (rs, map Exec [Suc i..<Suc i + Suc k], Some (Suc i + k), s')"
    and len: "length rs = Suc k" and tx: "txStart s' = txStart ?s1" by blast
  have "[i..<i + Suc (Suc k)] = i # [Suc i..<Suc i + Suc k]"
    by (simp add: upt_conv_Cons)
  with sc e ih len tx show ?case by simp
qed

text \<open>
  Claim C6. A script run in atomic mode whose statement at position \<open>k\<close> is the first to
  fail (the statements before it succeed one after the other, it is rejected in the state
  they produce): the transaction is begun before the first statement, the statements
  \<open>0\<close> to \<open>k\<close> run in source order and no later one runs, the transaction is rolled back,
  and the database state afterwards is the state before the script.
\<close>

theorem atomic_rollback:
  assumes "k < length script"
    and "runAll exec (take k script) (current s) = Some dk"
    and "exec (script ! k) dk = Inl msg"
  shows "trace (execute exec script True s) = Begin # map Exec [0..<Suc k] @ [Rollback] \<and>
         current (session (execute exec script True s)) = current s \<and>
         txStart (session (execute exec script True s)) = None \<and>
         abortedAt (execute exec script True s) = Some k \<and>
         length (statements (execute exec script True s)) = Suc k \<and>
         \<not> overallSuccess (execute exec script True s) \<and>
         finalState (execute exec script True s) = RolledBack"
proof -
  have c: "runAll exec (take k script) (current (beginTransaction s)) = Some dk"
    using assms(2) by (simp add: beginTransaction_def)
  from runAtomic_first_failure[OF assms(1) c assms(3), of 0] obtain rs s' where
    r: "runAtomic exec 0 script (beginTransaction s) = (rs, map Exec [0..<Suc k], Some k, s')"
    and len: "length rs = Suc k" and tx: "txStart s' = txStart (beginTransaction s)"
    by auto
  from tx have "txStart s' = Some (current s)" by (simp add: beginTransaction_def)
  then have "rollbackTransaction s' = \<lparr>current = current s, txStart = None\<rparr>"
    by (simp add: rollbackTransaction_def)
  with r len show ?thesis by (simp add: execute_def)
qed

text \<open>Four statements, the third malformed.\<close>

theorem atomic_rollback_witness:
  "trace (execute counterExec [Some 1, Some 2, None, Some 4] True \<lparr>current = 10, txStart = None\<rparr>)
     = [Begin, Exec 0, Exec 1, Exec 2, Rollback] \<and>
   current (session (execute counterExec [Some 1, Some 2, None, Some 4] True
                       \<lparr>current = 10, txStart = None\<rparr>)) = 10"
proof -
  have a: "(2::nat) < length [Some 1, Some 2, None, Some (4::int)]" by simp
  have b: "runAll counterExec (take 2 [Some 1, Some 2, None, Some 4])
             (current \<lparr>current = 10, txStart = None\<rparr>) = Some 13"
    by (simp add: counterExec_def eval_nat_numeral)
  have c: "counterExec ([Some 1, Some 2, None, Some 4] ! 2) 13 = Inl ''syntax error''"
    by (simp add: counterExec_def eval_nat_numeral)
  have u: "[0..<Suc 2] = [0, 1, 2]" by (simp add: upt_rec eval_nat_numeral)
  from atomic_rollback[OF a b c] u show ?thesis by simp
qed

section \<open>Properties of the row mutation reconciler\<close>

lemma holds_nullSafe: "holds row (nullSafe cv) = (map_of row (fst cv) = Some (snd cv))"
  by (auto simp: nullSafe_def)

lemma matches_buildUpdate: "matches (buildUpdate t before after) row = equalsSnapshot before row"
  by (simp add: matches_def buildUpdate_def equalsSnapshot_def list_all_iff holds_nullSafe)

lemma whereClause_columns:
  "map conditionColumn (whereClause (buildUpdate t before after)) = map fst before"
  by (simp add: buildUpdate_def nullSafe_def comp_def)

lemma setClause_columns:
  assumes "distinct (map fst after)"
  shows "(c, v) \<in> set (setClause (buildUpdate t before after))
           \<longleftrightarrow> map_of after c = Some v \<and> map_of before c \<noteq> Some v"
  using assms by (auto simp: buildUpdate_def)

lemma update_unchanged:
  assumes "update rows t before after = Inr (n, rows')"
  shows "length rows' = length rows \<and>
         (\<forall>i < length rows. \<not> equalsSnapshot before (rows ! i) \<longrightarrow> rows' ! i = rows ! i)"
proof (cases "setClause (buildUpdate t before after) = []")
  case True
  with assms have "rows' = rows" by (simp add: update_def Let_def)
  then show ?thesis by simp
next
  case False
  let ?stmt = "buildUpdate t before after"
  from False assms have
    "rows' = map (\<lambda>row. if matches ?stmt row then applySet (setClause ?stmt) row else row) rows"
    by (simp add: update_def Let_def split: if_splits)
  then show ?thesis by (simp add: matches_buildUpdate)
qed

lemma update_NoSuchRow:
  assumes "\<forall>row \<in> set rows. \<not> equalsSnapshot before row"
    and "setClause (buildUpdate t before after) \<noteq> []"
  shows "update rows t before after = Inl NoSuchRow"
proof -
  have "filter (matches (buildUpdate t before after)) rows = []"
    using assms(1) by (simp add: matches_buildUpdate filter_empty_conv)
  with assms(2) show ?thesis by (simp add: update_def Let_def)
qed

text \<open>
  Claim C7. The SET clause of the generated UPDATE holds exactly the columns whose value
  differs between \<open>before\<close> and \<open>after\<close>; the WHERE clause has one condition for every
  column of \<open>before\<close>, and a stored row satisfies it exactly when it equals \<open>before\<close> on all
  these columns, null values included. So a successful update leaves every stored row that
  differs from the snapshot as it was, and when no stored row equals the snapshot the
  update fails with \<^verbatim>\<open>NoSuchRow\<close>.
\<close>

theorem update_statement:
  assumes "distinct (map fst after)"
  shows "((c, v) \<in> set (setClause (buildUpdate t before after))
            \<longleftrightarrow> map_of after c = Some v \<and> map_of before c \<noteq> Some v) \<and>
         map conditionColumn (whereClause (buildUpdate t before after)) = map fst before \<and>
         matches (buildUpdate t before after) row = equalsSnapshot before row \<and>
         (update rows t before after = Inr (n, rows') \<longrightarrow>
            length rows' = length rows \<and>
            (\<forall>i < length rows. \<not> equalsSnapshot before (rows ! i) \<longrightarrow> rows' ! i = rows ! i)) \<and>
         ((\<forall>r \<in> set rows. \<not> equalsSnapshot before r) \<and>
          setClause (buildUpdate t before after) \<noteq> []
            \<longrightarrow> update rows t before after = Inl NoSuchRow)"
proof (intro conjI impI)
  show "(c, v) \<in> set (setClause (buildUpdate t before after))
          \<longleftrightarrow> map_of after c = Some v \<and> map_of before c \<noteq> Some v"
    by (rule setClause_columns[OF assms])
next
  show "map conditionColumn (whereClause (buildUpdate t before after)) = map fst before"
    by (rule whereClause_columns)
next
  show "matches (buildUpdate t before after) row = equalsSnapshot before row"
    by (rule matches_buildUpdate)
next
  assume "update rows t before after = Inr (n, rows')"
  from update_unchanged[OF this] show "length rows' = length rows" by simp
next
  assume "update rows t before after = Inr (n, rows')"
  from update_unchanged[OF this]
  show "\<forall>i < length rows. \<not> equalsSnapshot before (rows ! i) \<longrightarrow> rows' ! i = rows ! i"
    by simp
next
  assume "(\<forall>r \<in> set rows. \<not> equalsSnapshot before r) \<and>
          setClause (buildUpdate t before after) \<noteq> []"
  then show "update rows t before after = Inl NoSuchRow"
    using update_NoSuchRow by blast
qed

text \<open>
  The example: only \<open>name\<close> is set; the snapshot itself matches although its e-mail is
  null; the row whose e-mail was changed meanwhile does not, and the update fails.
\<close>

theorem update_statement_witness:
  "distinct (map fst exampleAfter) \<and>
   setClause (buildUpdate ''users'' exampleBefore exampleAfter) = [(''name'', SqlText ''anna'')] \<and>
   matches (buildUpdate ''users'' exampleBefore exampleAfter) exampleBefore \<and>
   \<not> matches (buildUpdate ''users'' exampleBefore exampleAfter) exampleStored \<and>
   update [exampleStored] ''users'' exampleBefore exampleAfter = Inl NoSuchRow"
proof -
  have d: "distinct (map fst exampleAfter)" by (simp add: exampleAfter_def)
  have s: "setClause (buildUpdate ''users'' exampleBefore exampleAfter) = [(''name'', SqlText ''anna'')]"
    by (simp add: buildUpdate_def exampleBefore_def exampleAfter_def)
  have b: "equalsSnapshot exampleBefore exampleBefore"
    by (simp add: equalsSnapshot_def exampleBefore_def)
  have n: "\<not> equalsSnapshot exampleBefore exampleStored"
    by (simp add: equalsSnapshot_def exampleBefore_def exampleStored_def)
  from update_statement[OF d, of _ _ "''users''" exampleBefore _ "[exampleStored]"] d s b n
  show ?thesis by simp
qed

end
